theory Spec2Isabelle
  imports Complex_Main "HOL-Library.AList" "HOL-Library.Sublist"
begin

section \<open>The serial-to-HTTP forwarder of \<^verbatim>\<open>robotica/ler-serial.js\<close>\<close>

text \<open>
  The script reads newline-delimited JSON from a serial port and POSTs every decoded line,
  enriched with two fields, to an HTTP endpoint. Its collaborators (the serial library, the
  HTTP client, \<^verbatim>\<open>JSON.parse\<close>, the clock) are not part of the script: the model takes what
  they answer as parameters and records what the script does to them as a trace of events.
  Numbers of the script that only ever hold integers (delays, counters, status codes) are
  \<open>int\<close>; \<^verbatim>\<open>NaN\<close> is \<open>None\<close> where \<^verbatim>\<open>parseInt\<close> can produce it.
\<close>

subsection \<open>JSON values\<close>

text \<open>
  A parsed JSON value. An object is the list of its own enumerable properties in enumeration
  order; the numbers of a payload are only carried along, never computed with.
\<close>

datatype json =
    JNull
  | JBool bool
  | JNum rat
  | JStr string
  | JArr "json list"
  | JObj "(string \<times> json) list"

type_synonym object = "(string \<times> json) list"

subsection \<open>Configuration\<close>

record config =
  SERIAL_PORT :: string
  SERIAL_BAUD :: "int option"
  API_URL :: string
  LINE_DELIMITER :: string
  CONNECT_RETRY_MS :: int
  POST_TIMEOUT_MS :: int
  MAX_POST_RETRIES :: int

subsection \<open>Errors, events and the state of the process\<close>

text \<open>What a \<^verbatim>\<open>catch\<close> of the script can receive.\<close>

datatype js_error =
    BadStatus int
  | NetworkError string
  | TimeoutError
  | OpenError string
  | CtorError string
  | ListError string

text \<open>What the HTTP collaborator answers to one request.\<close>

datatype http_outcome =
    Response int
  | NoResponse string
  | TimedOut

text \<open>What the serial collaborator answers to one \<^verbatim>\<open>new SerialPort\<close> / \<^verbatim>\<open>sp.open\<close>.\<close>

datatype open_outcome =
    OpenOk
  | OpenFails string
  | CtorThrows string

text \<open>
  Every call the script makes to a collaborator and every line it prints, in the order of
  execution.
\<close>

datatype event =
    NewSerialPort string "int option"
  | LogOpenFailed string string
  | LogOpened string "int option"
  | PipeParser string
  | WireHandlers
  | LogRetryOpening int
  | Sleep int
  | LogPortClosed
  | LogSerialError string
  | PortClose
  | LogInvalidJSON string
  | HttpPost string object int
  | LogPostRetry js_error int int
  | LogPostFailed js_error
  | LogSigint
  | LogStarting
  | LogCfgUrl string
  | LogCfgSerial string "int option"

record serial_port =
  sp_path :: string
  isOpen :: bool

record world =
  trace :: "event list"
  opens :: nat
  posts :: nat
  port :: "serial_port option"
  parser :: "string option"
  exit_code :: "int option"

text \<open>
  The collaborators: the answer to the \<open>n\<close>-th request of each kind, counted from 0 over
  the life of the process.
\<close>

record port_info =
  path :: string
  manufacturer :: "string option"
  friendlyName :: "string option"

record outside =
  http :: "nat \<Rightarrow> http_outcome"
  device :: "nat \<Rightarrow> open_outcome"
  listing :: "nat \<Rightarrow> js_error + port_info list"

text \<open>
  The language runtime: \<^verbatim>\<open>JSON.parse\<close> (\<open>None\<close> when it throws its \<^verbatim>\<open>SyntaxError\<close>) and the
  rendering \<^verbatim>\<open>Date.prototype.toISOString\<close> of a clock reading in milliseconds.
\<close>

record runtime =
  JSON_parse :: "string \<Rightarrow> json option"
  toISOString :: "int \<Rightarrow> string"

subsection \<open>Delivery: \<^verbatim>\<open>postWithRetries\<close>\<close>

definition validateStatus :: "int \<Rightarrow> bool" where
  "validateStatus s \<longleftrightarrow> s \<ge> 200 \<and> s < 300"

text \<open>
  \<^verbatim>\<open>axios.post\<close> with the script's \<^verbatim>\<open>validateStatus\<close>: the promise resolves when a response
  arrives whose status \<^verbatim>\<open>validateStatus\<close> accepts, and rejects otherwise.
\<close>

definition axios_post :: "http_outcome \<Rightarrow> js_error + int" where
  "axios_post r =
     (case r of
        Response s \<Rightarrow> if validateStatus s then Inr s else Inl (BadStatus s)
      | NoResponse c \<Rightarrow> Inl (NetworkError c)
      | TimedOut \<Rightarrow> Inl TimeoutError)"

function postWithRetries ::
  "config \<Rightarrow> outside \<Rightarrow> object \<Rightarrow> int \<Rightarrow> world \<Rightarrow> (js_error + unit) \<times> world" where
  "postWithRetries cfg out data retriesLeft w =
     (let w1 = w\<lparr>trace := trace w @ [HttpPost (API_URL cfg) data (POST_TIMEOUT_MS cfg)],
                 posts := Suc (posts w)\<rparr>
      in case axios_post (http out (posts w)) of
           Inr _ \<Rightarrow> (Inr (), w1)
         | Inl err \<Rightarrow>
             if retriesLeft > 0 then
               let wait = POST_TIMEOUT_MS cfg * (MAX_POST_RETRIES cfg - retriesLeft + 1);
                   w2 = w1\<lparr>trace := trace w1 @ [LogPostRetry err wait retriesLeft, Sleep wait]\<rparr>
               in postWithRetries cfg out data (retriesLeft - 1) w2
             else (Inl err, w1))"
  by pat_completeness auto
termination
  by (relation "measure (\<lambda>(cfg, out, data, retriesLeft, w). nat retriesLeft)") auto

declare postWithRetries.simps [simp del]

subsection \<open>Strings\<close>

text \<open>
  A \<open>char\<close> stands for a code unit below 256 of a JavaScript string. \<^verbatim>\<open>trim\<close> and
  \<^verbatim>\<open>parseInt\<close> skip the white space and line terminators of the language; those below 256
  are tab, line feed, vertical tab, form feed, carriage return, space and no-break space.
\<close>

definition is_ws :: "char \<Rightarrow> bool" where
  "is_ws c \<longleftrightarrow> of_char c \<in> {9, 10, 11, 12, 13, 32, 160 :: nat}"

definition trim :: "string \<Rightarrow> string" where
  "trim s = rev (dropWhile is_ws (rev (dropWhile is_ws s)))"

definition is_digit :: "char \<Rightarrow> bool" where
  "is_digit c \<longleftrightarrow> 48 \<le> (of_char c :: nat) \<and> (of_char c :: nat) \<le> 57"

text \<open>The case folding of an \<^verbatim>\<open>/i\<close> pattern made of ASCII letters: only A to Z fold.\<close>

definition lower :: "char \<Rightarrow> char" where
  "lower c = (if 65 \<le> (of_char c :: nat) \<and> (of_char c :: nat) \<le> 90
              then char_of (of_char c + 32 :: nat) else c)"

text \<open>The decimal rendering of an array index, as a property key.\<close>

fun string_of_nat :: "nat \<Rightarrow> string" where
  "string_of_nat n =
     (if n < 10 then [''0123456789'' ! n]
      else string_of_nat (n div 10) @ [''0123456789'' ! (n mod 10)])"

declare string_of_nat.simps [simp del]

text \<open>The number that a run of decimal digits stands for.\<close>

definition decimal_value :: "string \<Rightarrow> nat" where
  "decimal_value s = foldl (\<lambda>a c. 10 * a + (of_char c - 48)) 0 s"

subsection \<open>Enrichment: the object literal with a spread\<close>

text \<open>
  \<^verbatim>\<open>CreateDataProperty\<close>: an existing key keeps its place and takes the new value, a new key
  goes last. (A new key that is an array index would go before the string keys; the two keys
  the script adds are not.)
\<close>

definition create_data_property :: "object \<Rightarrow> string \<Rightarrow> json \<Rightarrow> object" where
  "create_data_property obj k v = AList.update k v obj"

text \<open>
  The own enumerable properties that a spread copies: those of an object; the elements of an
  array under their indices; the code units of a string under their indices; none for a
  number, a boolean or \<^verbatim>\<open>null\<close>.
\<close>

definition own_enumerable :: "json \<Rightarrow> object" where
  "own_enumerable v =
     (case v of
        JObj props \<Rightarrow> props
      | JArr xs \<Rightarrow> zip (map string_of_nat [0..<length xs]) xs
      | JStr s \<Rightarrow> zip (map string_of_nat [0..<length s]) (map (\<lambda>c. JStr [c]) s)
      | _ \<Rightarrow> [])"

definition copy_data_properties :: "object \<Rightarrow> json \<Rightarrow> object" where
  "copy_data_properties target src =
     fold (\<lambda>(k, v) obj. create_data_property obj k v) (own_enumerable src) target"

text \<open>
  \<^verbatim>\<open>{ ...payload, _ingested_at: new Date().toISOString(), _source: "arduino-serial" }\<close>,
  with \<open>now\<close> the rendered clock reading: a fresh object, filled from left to right.
\<close>

definition enrich :: "json \<Rightarrow> string \<Rightarrow> object" where
  "enrich payload now =
     create_data_property
       (create_data_property (copy_data_properties [] payload) ''_ingested_at'' (JStr now))
       ''_source'' (JStr ''arduino-serial'')"

text \<open>
  The same literal where objects live in a store and \<open>payload\<close> is the address of one: the
  literal allocates a new object and fills it; the only cell it writes is the new one.
\<close>

type_synonym store = "object list"

definition object_literal :: "store \<Rightarrow> nat \<Rightarrow> string \<Rightarrow> store \<times> nat" where
  "object_literal h payload now =
     (let enriched = length h;
          h1 = h @ [[]];
          h2 = h1[enriched := copy_data_properties (h1 ! enriched) (JObj (h1 ! payload))];
          h3 = h2[enriched := create_data_property (h2 ! enriched) ''_ingested_at'' (JStr now)];
          h4 = h3[enriched := create_data_property (h3 ! enriched) ''_source''
                                (JStr ''arduino-serial'')]
      in (h4, enriched))"

subsection \<open>The data handler\<close>

text \<open>
  The handler of the parser's \<^verbatim>\<open>data\<close> event, for one line that arrives when the clock
  reads \<open>now\<close>. The result is how its promise settles. The model runs one invocation to its
  end before the next line; the process itself interleaves them at every \<^verbatim>\<open>await\<close>.
\<close>

definition on_data ::
  "runtime \<Rightarrow> config \<Rightarrow> outside \<Rightarrow> int \<Rightarrow> string \<Rightarrow> world \<Rightarrow> (js_error + unit) \<times> world" where
  "on_data rt cfg out now line w =
     (let trimmed = trim line
      in if trimmed = [] then (Inr (), w)
         else case JSON_parse rt trimmed of
                None \<Rightarrow> (Inr (), w\<lparr>trace := trace w @ [LogInvalidJSON trimmed]\<rparr>)
              | Some payload \<Rightarrow>
                  (let enriched = enrich payload (toISOString rt now)
                   in case postWithRetries cfg out enriched (MAX_POST_RETRIES cfg) w of
                        (Inr _, w') \<Rightarrow> (Inr (), w')
                      | (Inl e, w') \<Rightarrow> (Inr (), w'\<lparr>trace := trace w' @ [LogPostFailed e]\<rparr>)))"

text \<open>The lines of one open period, each with the clock reading at its arrival.\<close>

fun pipeline ::
  "runtime \<Rightarrow> config \<Rightarrow> outside \<Rightarrow> (int \<times> string) list \<Rightarrow> world \<Rightarrow> world" where
  "pipeline rt cfg out [] w = w"
| "pipeline rt cfg out ((now, line) # rest) w =
     pipeline rt cfg out rest (snd (on_data rt cfg out now line w))"

subsection \<open>Discovery: \<^verbatim>\<open>autoDetectPort\<close>\<close>

text \<open>\<^verbatim>\<open>x || ""\<close> for a field that is a string or undefined.\<close>

definition or_empty :: "string option \<Rightarrow> string" where
  "or_empty x = (case x of None \<Rightarrow> [] | Some s \<Rightarrow> s)"

text \<open>\<^verbatim>\<open>/arduino|wch|usb/i.test(s)\<close>: one of the three words occurs in \<open>s\<close>, in any case.\<close>

definition looks_like_arduino :: "string \<Rightarrow> bool" where
  "looks_like_arduino s \<longleftrightarrow>
     sublist ''arduino'' (map lower s) \<or> sublist ''wch'' (map lower s)
     \<or> sublist ''usb'' (map lower s)"

text \<open>\<^verbatim>\<open>/^COM\d+$/i.test(s)\<close>: the whole of \<open>s\<close> is COM, in any case, and at least one digit.\<close>

definition is_COM :: "string \<Rightarrow> bool" where
  "is_COM s \<longleftrightarrow>
     map lower (take 3 s) = ''com'' \<and> drop 3 s \<noteq> [] \<and> list_all is_digit (drop 3 s)"

definition describe :: "port_info \<Rightarrow> string" where
  "describe p =
     or_empty (manufacturer p) @ '' '' @ or_empty (friendlyName p) @ '' '' @ path p"

text \<open>
  \<open>listed\<close> is what \<^verbatim>\<open>await SerialPort.list()\<close> gives: the ports, or the error it throws.
\<close>

definition autoDetectPort :: "js_error + port_info list \<Rightarrow> string" where
  "autoDetectPort listed =
     (case listed of
        Inl err \<Rightarrow> ''COM3''
      | Inr ports \<Rightarrow>
          (case find (\<lambda>p. looks_like_arduino (describe p)) ports of
             Some preferred \<Rightarrow> path preferred
           | None \<Rightarrow>
               (case find (\<lambda>p. is_COM (path p)) ports of
                  Some com \<Rightarrow> path com
                | None \<Rightarrow> ''COM3'')))"

subsection \<open>The connection: \<^verbatim>\<open>openPort\<close>, \<^verbatim>\<open>ensureOpen\<close>, \<^verbatim>\<open>wireHandlers\<close>\<close>

text \<open>
  One call of \<^verbatim>\<open>openPort\<close>. A constructor that throws rejects the promise before
  \<^verbatim>\<open>sp.open\<close> is reached, so nothing is printed for it.
\<close>

definition openPort :: "config \<Rightarrow> outside \<Rightarrow> world \<Rightarrow> (js_error + serial_port) \<times> world" where
  "openPort cfg out w =
     (let p = (if SERIAL_PORT cfg = ''auto'' then autoDetectPort (listing out (opens w))
               else SERIAL_PORT cfg);
          w1 = w\<lparr>trace := trace w @ [NewSerialPort p (SERIAL_BAUD cfg)], opens := Suc (opens w)\<rparr>
      in case device out (opens w) of
           CtorThrows msg \<Rightarrow> (Inl (CtorError msg), w1)
         | OpenFails msg \<Rightarrow> (Inl (OpenError msg), w1\<lparr>trace := trace w1 @ [LogOpenFailed p msg]\<rparr>)
         | OpenOk \<Rightarrow>
             (Inr \<lparr>sp_path = p, isOpen = True\<rparr>,
              w1\<lparr>trace := trace w1 @ [LogOpened p (SERIAL_BAUD cfg)]\<rparr>))"

text \<open>Registering the close, error and data handlers on the new port and parser.\<close>

definition wireHandlers :: "world \<Rightarrow> world" where
  "wireHandlers w = w\<lparr>trace := trace w @ [WireHandlers]\<rparr>"

text \<open>
  One iteration of the \<^verbatim>\<open>while (true)\<close> of \<^verbatim>\<open>ensureOpen\<close>: \<open>Inr\<close> is the \<^verbatim>\<open>break\<close> of
  the \<^verbatim>\<open>try\<close> block, \<open>Inl\<close> the end of the \<^verbatim>\<open>catch\<close> block, from where the loop goes round.
\<close>

definition ensureOpen_body :: "config \<Rightarrow> outside \<Rightarrow> world \<Rightarrow> world + world" where
  "ensureOpen_body cfg out w =
     (case openPort cfg out w of
        (Inr sp, w1) \<Rightarrow>
          Inr (wireHandlers
                 (w1\<lparr>port := Some sp, parser := Some (LINE_DELIMITER cfg),
                     trace := trace w1 @ [PipeParser (LINE_DELIMITER cfg)]\<rparr>))
      | (Inl err, w1) \<Rightarrow>
          Inl (w1\<lparr>trace := trace w1 @ [LogRetryOpening (CONNECT_RETRY_MS cfg),
                                        Sleep (CONNECT_RETRY_MS cfg)]\<rparr>))"

text \<open>
  The loop: \<open>None\<close> is a loop that never ends. Nothing leaves the loop but the \<^verbatim>\<open>break\<close>,
  so there is no error result.
\<close>

partial_function (option) ensureOpen :: "config \<Rightarrow> outside \<Rightarrow> world \<Rightarrow> world option" where
  "ensureOpen cfg out w =
     (case ensureOpen_body cfg out w of
        Inr w' \<Rightarrow> Some w'
      | Inl w' \<Rightarrow> ensureOpen cfg out w')"

text \<open>
  The same loop watched for \<open>n\<close> iterations: \<open>Inr\<close> when it has left by then, \<open>Inl\<close> with the
  state it has reached when it is still going round.
\<close>

fun ensureOpen_upto :: "nat \<Rightarrow> config \<Rightarrow> outside \<Rightarrow> world \<Rightarrow> world + world" where
  "ensureOpen_upto 0 cfg out w = Inl w"
| "ensureOpen_upto (Suc n) cfg out w =
     (case ensureOpen_body cfg out w of
        Inr w' \<Rightarrow> Inr w'
      | Inl w' \<Rightarrow> ensureOpen_upto n cfg out w')"

text \<open>
  The handler of the port's \<^verbatim>\<open>close\<close> event. (The handler of the \<^verbatim>\<open>error\<close> event only prints
  the error and closes the port, which raises this event.)
\<close>

definition on_close :: "config \<Rightarrow> outside \<Rightarrow> world \<Rightarrow> world option" where
  "on_close cfg out w =
     ensureOpen cfg out
       (w\<lparr>trace := trace w @ [LogPortClosed, Sleep (CONNECT_RETRY_MS cfg)]\<rparr>)"

subsection \<open>Start and shutdown\<close>

record process_env =
  env_SERIAL_PORT :: "string option"
  env_SERIAL_BAUD :: "string option"
  env_API_URL :: "string option"

text \<open>\<^verbatim>\<open>process.env.X || d\<close>: an unset and an empty variable both give the default.\<close>

definition env_or :: "string option \<Rightarrow> string \<Rightarrow> string" where
  "env_or x d = (case x of None \<Rightarrow> d | Some s \<Rightarrow> if s = [] then d else s)"

definition digit_value :: "char \<Rightarrow> int" where
  "digit_value c = int (of_char c) - 48"

text \<open>
  \<^verbatim>\<open>parseInt(s, 10)\<close>: leading white space and one sign are skipped, the longest run of
  digits is read, and there is no number (\<^verbatim>\<open>NaN\<close>, here \<open>None\<close>) when that run is empty.
\<close>

definition parseInt10 :: "string \<Rightarrow> int option" where
  "parseInt10 s =
     (let t = dropWhile is_ws s;
          neg = (t \<noteq> [] \<and> hd t = CHR ''-'');
          u = (if t \<noteq> [] \<and> (hd t = CHR ''-'' \<or> hd t = CHR ''+'') then tl t else t);
          ds = takeWhile is_digit u
      in if ds = [] then None
         else Some ((if neg then - 1 else 1) * foldl (\<lambda>a c. 10 * a + digit_value c) 0 ds))"

definition CONFIG :: "process_env \<Rightarrow> config" where
  "CONFIG env =
     \<lparr>SERIAL_PORT = env_or (env_SERIAL_PORT env) ''auto'',
      SERIAL_BAUD = parseInt10 (env_or (env_SERIAL_BAUD env) ''115200''),
      API_URL = env_or (env_API_URL env) ''http://127.0.0.1:8000/telemetry'',
      LINE_DELIMITER = [char_of (10 :: nat)],
      CONNECT_RETRY_MS = 3000,
      POST_TIMEOUT_MS = 5000,
      MAX_POST_RETRIES = 3\<rparr>"

definition initial :: world where
  "initial = \<lparr>trace = [], opens = 0, posts = 0, port = None, parser = None, exit_code = None\<rparr>"

text \<open>
  The top-level \<^verbatim>\<open>main\<close>: three lines of log, after which the process is in the state
  \<open>started\<close>, then \<^verbatim>\<open>ensureOpen\<close>. Nothing between the reading of the environment and the
  first call of \<^verbatim>\<open>openPort\<close> looks at the settings.
\<close>

definition started :: "process_env \<Rightarrow> world" where
  "started env =
     initial\<lparr>trace := [LogStarting, LogCfgUrl (API_URL (CONFIG env)),
                          LogCfgSerial (SERIAL_PORT (CONFIG env)) (SERIAL_BAUD (CONFIG env))]\<rparr>"

definition main :: "process_env \<Rightarrow> outside \<Rightarrow> world option" where
  "main env out = ensureOpen (CONFIG env) out (started env)"

text \<open>
  The \<^verbatim>\<open>SIGINT\<close> handler: closes the port when there is an open one, then
  \<^verbatim>\<open>process.exit(0)\<close>, the only exit of the script. Closing raises the close event, whose
  handler prints its line and is in its sleep when the process exits.
\<close>

definition on_SIGINT :: "world \<Rightarrow> world" where
  "on_SIGINT w =
     (let w1 = w\<lparr>trace := trace w @ [LogSigint]\<rparr>;
          w2 = (case port w1 of
                  None \<Rightarrow> w1
                | Some sp \<Rightarrow>
                    if isOpen sp
                    then w1\<lparr>trace := trace w1 @ [PortClose, LogPortClosed],
                            port := Some (sp\<lparr>isOpen := False\<rparr>)\<rparr>
                    else w1)
      in w2\<lparr>exit_code := Some 0\<rparr>)"

subsection \<open>Reading a trace\<close>

fun is_HttpPost :: "event \<Rightarrow> bool" where
  "is_HttpPost (HttpPost url body timeout) = True"
| "is_HttpPost e = False"

fun is_Sleep :: "event \<Rightarrow> bool" where
  "is_Sleep (Sleep ms) = True"
| "is_Sleep e = False"

fun is_NewSerialPort :: "event \<Rightarrow> bool" where
  "is_NewSerialPort (NewSerialPort p baud) = True"
| "is_NewSerialPort e = False"

text \<open>The durations of the sleeps of a trace, in order.\<close>

fun waits :: "event list \<Rightarrow> int list" where
  "waits [] = []"
| "waits (Sleep ms # es) = ms # waits es"
| "waits (e # es) = waits es"

text \<open>The part of the trace that was added on the way from \<open>w\<close> to \<open>w'\<close>.\<close>

definition added :: "world \<Rightarrow> world \<Rightarrow> event list" where
  "added w w' = drop (length (trace w)) (trace w')"

text \<open>The error that the \<open>n\<close>-th request ends with, when it fails.\<close>

definition http_error :: "outside \<Rightarrow> nat \<Rightarrow> js_error" where
  "http_error out n = projl (axios_post (http out n))"

text \<open>
  The connection states of the specification, read off the trace: the script has no state
  variable, so a state is entered where the script does what the specification attaches to
  it. \<open>Connecting\<close> begins with the constructor call of \<^verbatim>\<open>openPort\<close>, \<open>Disconnected\<close> is
  re-entered in the \<^verbatim>\<open>catch\<close> of \<^verbatim>\<open>ensureOpen\<close>, \<open>Open\<close> is entered when \<^verbatim>\<open>sp.open\<close> reports
  success, and the line stream exists once the handlers are wired.
\<close>

datatype conn_state = Disconnected | Connecting | Open | Faulted

datatype observation = State conn_state | Wait int | StreamStarts

fun observe :: "event list \<Rightarrow> observation list" where
  "observe [] = []"
| "observe (NewSerialPort p baud # es) = State Connecting # observe es"
| "observe (LogRetryOpening ms # es) = State Disconnected # observe es"
| "observe (LogOpened p baud # es) = State Open # observe es"
| "observe (Sleep ms # es) = Wait ms # observe es"
| "observe (WireHandlers # es) = StreamStarts # observe es"
| "observe (e # es) = observe es"

text \<open>
  Between rounds the state is what the \<^verbatim>\<open>SIGINT\<close> handler tests, \<^verbatim>\<open>port && port.isOpen\<close>.
\<close>

definition connection_state :: "world \<Rightarrow> conn_state" where
  "connection_state w =
     (case port w of
        None \<Rightarrow> Disconnected
      | Some sp \<Rightarrow> if isOpen sp then Open else Disconnected)"

text \<open>The state that a watched loop has reached, whether it has left or not.\<close>

definition reached :: "world + world \<Rightarrow> world" where
  "reached r = (case r of Inl w \<Rightarrow> w | Inr w \<Rightarrow> w)"

text \<open>
  What one round of \<^verbatim>\<open>ensureOpen\<close> adds to the trace when it is the \<open>n\<close>-th call of
  \<^verbatim>\<open>openPort\<close>: for a round that fails, and for the round that opens the port.
\<close>

definition chosen_path :: "config \<Rightarrow> outside \<Rightarrow> nat \<Rightarrow> string" where
  "chosen_path cfg out n =
     (if SERIAL_PORT cfg = ''auto'' then autoDetectPort (listing out n) else SERIAL_PORT cfg)"

definition failed_round :: "config \<Rightarrow> outside \<Rightarrow> nat \<Rightarrow> event list" where
  "failed_round cfg out n =
     NewSerialPort (chosen_path cfg out n) (SERIAL_BAUD cfg)
     # (case device out n of
          OpenFails msg \<Rightarrow> [LogOpenFailed (chosen_path cfg out n) msg]
        | _ \<Rightarrow> [])
     @ [LogRetryOpening (CONNECT_RETRY_MS cfg), Sleep (CONNECT_RETRY_MS cfg)]"

definition opening_round :: "config \<Rightarrow> outside \<Rightarrow> nat \<Rightarrow> event list" where
  "opening_round cfg out n =
     [NewSerialPort (chosen_path cfg out n) (SERIAL_BAUD cfg),
      LogOpened (chosen_path cfg out n) (SERIAL_BAUD cfg),
      PipeParser (LINE_DELIMITER cfg), WireHandlers]"

subsection \<open>Sample collaborators\<close>

text \<open>
  Concrete collaborators on which the statements below are instantiated: an endpoint that
  answers 503 to everything, one that answers 500 once and 200 from then on, a device that is
  busy twice and then opens, one that never opens, and a runtime that answers as \<^verbatim>\<open>JSON.parse\<close> does on the five
  lines it knows and renders the clock reading 0 (no other reading is used); an empty
  environment, and one whose baud rate is not a number.
\<close>

definition com1_port :: port_info where
  "com1_port =
     \<lparr>path = ''COM1'', manufacturer = Some ''(Standard port types)'', friendlyName = None\<rparr>"

definition wch_port :: port_info where
  "wch_port =
     \<lparr>path = ''COM7'', manufacturer = Some ''wch.cn'', friendlyName = Some ''CH340 (COM7)''\<rparr>"

definition sample_ports :: "port_info list" where
  "sample_ports = [com1_port, wch_port]"

definition bench :: "(nat \<Rightarrow> http_outcome) \<Rightarrow> outside" where
  "bench h =
     \<lparr>http = h,
      device = (\<lambda>n. if n < 2 then OpenFails ''Access denied'' else OpenOk),
      listing = (\<lambda>n. Inr sample_ports)\<rparr>"

definition unplugged :: outside where
  "unplugged =
     \<lparr>http = (\<lambda>n. NoResponse ''ECONNREFUSED''),
      device = (\<lambda>n. OpenFails ''File not found''),
      listing = (\<lambda>n. Inl (ListError ''Access denied''))\<rparr>"

definition endpoint_down :: "nat \<Rightarrow> http_outcome" where
  "endpoint_down n = Response 503"

definition endpoint_recovering :: "nat \<Rightarrow> http_outcome" where
  "endpoint_recovering n = (if n = 0 then Response 500 else Response 200)"

definition temp_line :: string where
  \<open>temp_line = ''{"temp":21.5}''\<close>

definition hi_line :: string where
  \<open>hi_line = ''"hi"''\<close>

definition sample_runtime :: runtime where
  "sample_runtime =
     \<lparr>JSON_parse = map_of
        [(temp_line, JObj [(''temp'', JNum (43 / 2))]),
         (hi_line, JStr ''hi''),
         (''42'', JNum 42),
         (''null'', JNull),
         (''[10,20]'', JArr [JNum 10, JNum 20])],
      toISOString = (\<lambda>t. if t = 0 then ''1970-01-01T00:00:00.000Z'' else [])\<rparr>"

definition fast_env :: process_env where
  "fast_env =
     \<lparr>env_SERIAL_PORT = Some ''COM4'', env_SERIAL_BAUD = Some ''fast'', env_API_URL = None\<rparr>"

definition no_env :: process_env where
  "no_env = \<lparr>env_SERIAL_PORT = None, env_SERIAL_BAUD = None, env_API_URL = None\<rparr>"

section \<open>Properties\<close>

subsection \<open>Facts about the sample collaborators\<close>

lemma trim_temp_line: "trim temp_line = temp_line"
  by (simp add: trim_def temp_line_def is_ws_def)

lemma parse_temp_line: "JSON_parse sample_runtime temp_line = Some (JObj [(''temp'', JNum (43 / 2))])"
  by (simp add: sample_runtime_def)

lemma temp_line_nonempty: "temp_line \<noteq> []"
  by (simp add: temp_line_def)

lemma endpoint_down_fails: "\<forall>n. isl (axios_post (http (bench endpoint_down) n))"
  by (simp add: bench_def endpoint_down_def axios_post_def validateStatus_def)

subsection \<open>Delivery and the data handler\<close>

lemma waits_append: "waits (xs @ ys) = waits xs @ waits ys"
  by (induction xs rule: waits.induct) auto

lemma upt_shift: "map f [0..<Suc n] = f 0 # map (\<lambda>i. f (Suc i)) [0..<n]"
  by (simp only: upt_conv_Cons[of 0 "Suc n"] map_Suc_upt[symmetric] list.map map_map comp_def)

lemma postWithRetries_all_fail:
  assumes "\<forall>n. isl (axios_post (http out n))"
  shows "0 \<le> r \<Longrightarrow> postWithRetries cfg out data r w =
    (Inl (http_error out (posts w + nat r)),
     w\<lparr>trace := trace w @
         concat (map (\<lambda>i. [HttpPost (API_URL cfg) data (POST_TIMEOUT_MS cfg),
                           LogPostRetry (http_error out (posts w + i))
                             (POST_TIMEOUT_MS cfg * (MAX_POST_RETRIES cfg - (r - int i) + 1)) (r - int i),
                           Sleep (POST_TIMEOUT_MS cfg * (MAX_POST_RETRIES cfg - (r - int i) + 1))])
                    [0..<nat r])
         @ [HttpPost (API_URL cfg) data (POST_TIMEOUT_MS cfg)],
       posts := posts w + nat r + 1\<rparr>)"
proof (induction "nat r" arbitrary: r w)
  case 0
  then have r: "r = 0" by simp
  from assms obtain e where e: "axios_post (http out (posts w)) = Inl e"
    by (metis isl_def)
  show ?case
    by (subst postWithRetries.simps) (simp add: r e http_error_def)
next
  case (Suc n)
  then have r: "0 < r" and n: "n = nat (r - 1)" and r1: "0 \<le> r - 1" by auto
  from assms obtain e where e: "axios_post (http out (posts w)) = Inl e"
    by (metis isl_def)
  have nr: "nat r = Suc n" using Suc by simp
  have he: "http_error out (posts w) = e" by (simp add: http_error_def e)
  show ?case
    apply (subst postWithRetries.simps)
    apply (simp only: Let_def e sum.case r if_True)
    apply (subst Suc.hyps(1)[OF n r1])
    apply (simp add: nr upt_shift he n[symmetric] diff_diff_eq del: upt_Suc)
    done
qed
lemma waits_rounds:
  "waits (concat (map (\<lambda>i. [HttpPost u d t, LogPostRetry (e i) (g i) (h i), Sleep (g i)]) xs)) = map g xs"
  by (induction xs) auto

lemma posts_rounds:
  "filter is_HttpPost (concat (map (\<lambda>i. [HttpPost u d t, LogPostRetry (e i) (g i) (h i), Sleep (g i)]) xs))
   = map (\<lambda>i. HttpPost u d t) xs"
  by (induction xs) auto

lemma posts_waits_rounds:
  "filter (\<lambda>e. is_HttpPost e \<or> is_Sleep e)
     (concat (map (\<lambda>i. [HttpPost u d t, LogPostRetry (e i) (g i) (h i), Sleep (g i)]) xs))
   = concat (map (\<lambda>i. [HttpPost u d t, Sleep (g i)]) xs)"
  by (induction xs) auto

lemma upt_as_upto: "map (\<lambda>i. f (int i + 1)) [0..<n] = map f [1..int n]"
proof (induction n)
  case 0
  show ?case by simp
next
  case (Suc n)
  have "[1..int (Suc n)] = [1..int n] @ [int n + 1]"
    using upto_rec2[of 1 "int n + 1"] by (simp add: add.commute)
  with Suc show ?case by simp
qed

lemma waits_increasing: "0 < (t::int) \<Longrightarrow> sorted_wrt (<) (map (\<lambda>k. t * k) [1..R])"
  by (simp add: sorted_wrt_map)

text \<open>
  Claim C1. With \<open>MAX_POST_RETRIES = R\<close> and an endpoint that fails every request (a status
  outside 2xx, no response, or a timeout), \<^verbatim>\<open>postWithRetries\<close> called with \<open>retriesLeft = R\<close>
  makes exactly \<open>R + 1\<close> requests; the sleep before the \<open>k\<close>-th retry lasts
  \<open>POST_TIMEOUT_MS * k\<close>, so that requests and sleeps alternate as request, sleep of
  \<open>timeout * 1\<close>, request, ..., sleep of \<open>timeout * R\<close>, request, strictly increasing for a
  positive timeout; the call ends with the error of the last request, and the data handler
  that made the call catches it, prints it and settles normally.
\<close>

theorem deliver_retry_budget:
  assumes fails: "\<forall>n. isl (axios_post (http out n))"
    and R: "MAX_POST_RETRIES cfg = R" "0 \<le> R"
  shows "\<exists>e w'. postWithRetries cfg out data R w = (Inl e, w')
     \<and> posts w' = posts w + nat R + 1
     \<and> int (length (filter is_HttpPost (added w w'))) = R + 1
     \<and> waits (added w w') = map (\<lambda>k. POST_TIMEOUT_MS cfg * k) [1..R]
     \<and> filter (\<lambda>e. is_HttpPost e \<or> is_Sleep e) (added w w') =
           concat (map (\<lambda>k. [HttpPost (API_URL cfg) data (POST_TIMEOUT_MS cfg),
                              Sleep (POST_TIMEOUT_MS cfg * k)]) [1..R])
           @ [HttpPost (API_URL cfg) data (POST_TIMEOUT_MS cfg)]
     \<and> (0 < POST_TIMEOUT_MS cfg \<longrightarrow> sorted_wrt (<) (waits (added w w')))
     \<and> (trim line \<noteq> [] \<and> JSON_parse rt (trim line) = Some payload
            \<and> data = enrich payload (toISOString rt now) \<longrightarrow>
          on_data rt cfg out now line w = (Inr (), w'\<lparr>trace := trace w' @ [LogPostFailed e]\<rparr>))"
proof -
  let ?rounds = "concat (map (\<lambda>i. [HttpPost (API_URL cfg) data (POST_TIMEOUT_MS cfg),
                           LogPostRetry (http_error out (posts w + i))
                             (POST_TIMEOUT_MS cfg * (int i + 1)) (R - int i),
                           Sleep (POST_TIMEOUT_MS cfg * (int i + 1))])
                    [0..<nat R])"
  let ?new = "?rounds @ [HttpPost (API_URL cfg) data (POST_TIMEOUT_MS cfg)]"
  let ?e = "http_error out (posts w + nat R)"
  let ?w' = "w\<lparr>trace := trace w @ ?new, posts := posts w + nat R + 1\<rparr>"
  have run: "postWithRetries cfg out data R w = (Inl ?e, ?w')"
    using postWithRetries_all_fail[OF fails R(2), of cfg data w] by (simp add: R(1))
  have new: "added w ?w' = ?new" by (simp add: added_def)
  have w: "waits ?new = map (\<lambda>k. POST_TIMEOUT_MS cfg * k) [1..R]"
    using upt_as_upto[of "\<lambda>k. POST_TIMEOUT_MS cfg * k" "nat R"] R(2)
    by (simp add: waits_append waits_rounds)
  have p: "int (length (filter is_HttpPost ?new)) = R + 1"
    using R(2) by (simp add: posts_rounds)
  have pw: "filter (\<lambda>e. is_HttpPost e \<or> is_Sleep e) ?new =
           concat (map (\<lambda>k. [HttpPost (API_URL cfg) data (POST_TIMEOUT_MS cfg),
                              Sleep (POST_TIMEOUT_MS cfg * k)]) [1..R])
           @ [HttpPost (API_URL cfg) data (POST_TIMEOUT_MS cfg)]"
    using upt_as_upto[of "\<lambda>k. [HttpPost (API_URL cfg) data (POST_TIMEOUT_MS cfg),
                              Sleep (POST_TIMEOUT_MS cfg * k)]" "nat R"] R(2)
    by (simp add: posts_waits_rounds)
  have s: "0 < POST_TIMEOUT_MS cfg \<longrightarrow> sorted_wrt (<) (waits ?new)"
    unfolding w by (simp add: waits_increasing)
  have h: "trim line \<noteq> [] \<and> JSON_parse rt (trim line) = Some payload
            \<and> data = enrich payload (toISOString rt now) \<longrightarrow>
          on_data rt cfg out now line w = (Inr (), ?w'\<lparr>trace := trace ?w' @ [LogPostFailed ?e]\<rparr>)"
    using run by (auto simp add: on_data_def Let_def R(1))
  show ?thesis
    apply (rule exI[of _ ?e], rule exI[of _ ?w'])
    apply (simp only: new)
    using run w p pw s h apply simp
    done
qed

theorem deliver_retry_budget_witness:
  "(\<forall>n. isl (axios_post (http (bench endpoint_down) n)))
   \<and> MAX_POST_RETRIES (CONFIG no_env) = 3 \<and> (0::int) \<le> 3
   \<and> trim temp_line \<noteq> []
   \<and> JSON_parse sample_runtime (trim temp_line) = Some (JObj [(''temp'', JNum (43 / 2))])
   \<and> (\<exists>e w'. on_data sample_runtime (CONFIG no_env) (bench endpoint_down) 0 temp_line initial
               = (Inr (), w'\<lparr>trace := trace w' @ [LogPostFailed e]\<rparr>)
        \<and> posts w' = 4
        \<and> length (filter is_HttpPost (added initial w')) = 4
        \<and> waits (added initial w') = [5000, 10000, 15000]
        \<and> sorted_wrt (<) (waits (added initial w')))"
proof -
  have m: "MAX_POST_RETRIES (CONFIG no_env) = 3" by (simp add: CONFIG_def)
  have t: "POST_TIMEOUT_MS (CONFIG no_env) = 5000" by (simp add: CONFIG_def)
  have u: "[1..3] = [1, 2, 3::int]" by (simp add: upto_rec1)
  from deliver_retry_budget[OF endpoint_down_fails m, of
        "enrich (JObj [(''temp'', JNum (43 / 2))]) (toISOString sample_runtime 0)"
        initial temp_line sample_runtime "JObj [(''temp'', JNum (43 / 2))]" 0]
  obtain e w' where a:
    "posts w' = posts initial + nat 3 + 1"
    "int (length (filter is_HttpPost (added initial w'))) = 3 + 1"
    "waits (added initial w') = map (\<lambda>k. POST_TIMEOUT_MS (CONFIG no_env) * k) [1..3]"
    "0 < POST_TIMEOUT_MS (CONFIG no_env) \<longrightarrow> sorted_wrt (<) (waits (added initial w'))"
    "on_data sample_runtime (CONFIG no_env) (bench endpoint_down) 0 temp_line initial
               = (Inr (), w'\<lparr>trace := trace w' @ [LogPostFailed e]\<rparr>)"
    by (auto simp add: trim_temp_line parse_temp_line temp_line_nonempty)
  have "\<exists>e w'. on_data sample_runtime (CONFIG no_env) (bench endpoint_down) 0 temp_line initial
               = (Inr (), w'\<lparr>trace := trace w' @ [LogPostFailed e]\<rparr>)
        \<and> posts w' = 4
        \<and> length (filter is_HttpPost (added initial w')) = 4
        \<and> waits (added initial w') = [5000, 10000, 15000]
        \<and> sorted_wrt (<) (waits (added initial w'))"
    using a by (intro exI[of _ e] exI[of _ w']) (simp add: t u initial_def)
  then show ?thesis
    using endpoint_down_fails
    by (simp add: m trim_temp_line parse_temp_line temp_line_nonempty)
qed
lemma postWithRetries_step:
  "postWithRetries cfg out data r w =
     (case axios_post (http out (posts w)) of
        Inr s \<Rightarrow> (Inr (), w\<lparr>trace := trace w @ [HttpPost (API_URL cfg) data (POST_TIMEOUT_MS cfg)],
                           posts := Suc (posts w)\<rparr>)
      | Inl err \<Rightarrow>
          if 0 < r
          then postWithRetries cfg out data (r - 1)
                 (w\<lparr>posts := Suc (posts w),
                    trace := trace w @
                      [HttpPost (API_URL cfg) data (POST_TIMEOUT_MS cfg),
                       LogPostRetry err (POST_TIMEOUT_MS cfg * (MAX_POST_RETRIES cfg - r + 1)) r,
                       Sleep (POST_TIMEOUT_MS cfg * (MAX_POST_RETRIES cfg - r + 1))]\<rparr>)
          else (Inl err, w\<lparr>trace := trace w @ [HttpPost (API_URL cfg) data (POST_TIMEOUT_MS cfg)],
                           posts := Suc (posts w)\<rparr>))"
  by (subst postWithRetries.simps) (simp add: Let_def split: sum.splits)

lemma postWithRetries_frame:
  "\<exists>res es n. \<forall>tr. postWithRetries cfg out data r (w\<lparr>trace := tr\<rparr>) =
     (res, w\<lparr>trace := tr @ HttpPost (API_URL cfg) data (POST_TIMEOUT_MS cfg) # es, posts := n\<rparr>)"
proof (induction cfg out data r w rule: postWithRetries.induct)
  case (1 cfg out data r w)
  let ?P = "HttpPost (API_URL cfg) data (POST_TIMEOUT_MS cfg)"
  show ?case
  proof (cases "axios_post (http out (posts w))")
    case (Inr s)
    have "\<forall>tr. postWithRetries cfg out data r (w\<lparr>trace := tr\<rparr>) =
            (Inr (), w\<lparr>trace := tr @ ?P # [], posts := Suc (posts w)\<rparr>)"
      by (subst postWithRetries_step) (simp add: Inr)
    then show ?thesis by blast
  next
    case (Inl e)
    show ?thesis
    proof (cases "0 < r")
      case False
      have "\<forall>tr. postWithRetries cfg out data r (w\<lparr>trace := tr\<rparr>) =
              (Inl e, w\<lparr>trace := tr @ ?P # [], posts := Suc (posts w)\<rparr>)"
        using False by (subst postWithRetries_step) (simp add: Inl)
      then show ?thesis by blast
    next
      case True
      let ?wait = "POST_TIMEOUT_MS cfg * (MAX_POST_RETRIES cfg - r + 1)"
      let ?w2 = "w\<lparr>trace := trace w @ [?P], posts := Suc (posts w)\<rparr>
                  \<lparr>trace := trace (w\<lparr>trace := trace w @ [?P], posts := Suc (posts w)\<rparr>)
                     @ [LogPostRetry e ?wait r, Sleep ?wait]\<rparr>"
      from "1.IH"[OF refl Inl True refl refl]
      obtain res es n where ih: "\<And>tr. postWithRetries cfg out data (r - 1) (?w2\<lparr>trace := tr\<rparr>) =
           (res, ?w2\<lparr>trace := tr @ ?P # es, posts := n\<rparr>)"
        by blast
      have "\<forall>tr. postWithRetries cfg out data r (w\<lparr>trace := tr\<rparr>) =
              (res, w\<lparr>trace := tr @ ?P # ([LogPostRetry e ?wait r, Sleep ?wait] @ ?P # es),
                     posts := n\<rparr>)"
      proof
        fix tr
        show "postWithRetries cfg out data r (w\<lparr>trace := tr\<rparr>) =
              (res, w\<lparr>trace := tr @ ?P # ([LogPostRetry e ?wait r, Sleep ?wait] @ ?P # es),
                     posts := n\<rparr>)"
          using ih[of "tr @ [?P, LogPostRetry e ?wait r, Sleep ?wait]"] True
          by (subst postWithRetries_step) (simp add: Inl)
      qed
      then show ?thesis by blast
    qed
  qed
qed

lemma on_data_parsed_frame:
  assumes "trim line \<noteq> []" and "JSON_parse rt (trim line) = Some payload"
  shows "\<exists>es n. \<forall>tr. on_data rt cfg out now line (w\<lparr>trace := tr\<rparr>) =
     (Inr (), w\<lparr>trace := tr @ HttpPost (API_URL cfg) (enrich payload (toISOString rt now))
                                  (POST_TIMEOUT_MS cfg) # es, posts := n\<rparr>)"
proof -
  let ?P = "HttpPost (API_URL cfg) (enrich payload (toISOString rt now)) (POST_TIMEOUT_MS cfg)"
  obtain res es n where f: "\<And>tr. postWithRetries cfg out (enrich payload (toISOString rt now))
        (MAX_POST_RETRIES cfg) (w\<lparr>trace := tr\<rparr>) = (res, w\<lparr>trace := tr @ ?P # es, posts := n\<rparr>)"
    using postWithRetries_frame[of cfg out "enrich payload (toISOString rt now)" "MAX_POST_RETRIES cfg" w]
    by blast
  show ?thesis
  proof (cases res)
    case (Inr u)
    have "\<forall>tr. on_data rt cfg out now line (w\<lparr>trace := tr\<rparr>) =
            (Inr (), w\<lparr>trace := tr @ ?P # es, posts := n\<rparr>)"
      using assms by (simp add: on_data_def f Inr)
    then show ?thesis by blast
  next
    case (Inl e)
    have "\<forall>tr. on_data rt cfg out now line (w\<lparr>trace := tr\<rparr>) =
            (Inr (), w\<lparr>trace := tr @ ?P # (es @ [LogPostFailed e]), posts := n\<rparr>)"
      using assms by (simp add: on_data_def f Inl)
    then show ?thesis by blast
  qed
qed

text \<open>
  Claim C3. A line whose trimmed text is not empty and not parseable is only logged, with the
  trimmed text of the line: the handler settles normally, nothing is enriched or posted and
  no request is counted. The pipeline goes on with the remaining lines, and a parseable line
  that follows is handled exactly as it would have been without the bad line before it: the
  same events, beginning with the POST of its enriched payload, after the one log entry.
\<close>

theorem invalid_line_skipped:
  assumes nonempty: "trim line \<noteq> []" and invalid: "JSON_parse rt (trim line) = None"
  shows "on_data rt cfg out now line w =
           (Inr (), w\<lparr>trace := trace w @ [LogInvalidJSON (trim line)]\<rparr>)
     \<and> filter is_HttpPost (added w (snd (on_data rt cfg out now line w))) = []
     \<and> posts (snd (on_data rt cfg out now line w)) = posts w
     \<and> pipeline rt cfg out ((now, line) # rest) w =
         pipeline rt cfg out rest (w\<lparr>trace := trace w @ [LogInvalidJSON (trim line)]\<rparr>)
     \<and> (trim line2 \<noteq> [] \<and> JSON_parse rt (trim line2) = Some payload \<longrightarrow>
          (\<exists>w2 es. on_data rt cfg out now2 line2 w = (Inr (), w2)
             \<and> added w w2 = HttpPost (API_URL cfg) (enrich payload (toISOString rt now2))
                               (POST_TIMEOUT_MS cfg) # es
             \<and> pipeline rt cfg out [(now, line), (now2, line2)] w =
                 w2\<lparr>trace := trace w @ LogInvalidJSON (trim line) # added w w2\<rparr>))"
proof -
  let ?w1 = "w\<lparr>trace := trace w @ [LogInvalidJSON (trim line)]\<rparr>"
  have skip: "on_data rt cfg out now line w = (Inr (), ?w1)"
    using assms by (simp add: on_data_def)
  have next_line: "\<exists>w2 es. on_data rt cfg out now2 line2 w = (Inr (), w2)
             \<and> added w w2 = HttpPost (API_URL cfg) (enrich payload (toISOString rt now2))
                               (POST_TIMEOUT_MS cfg) # es
             \<and> pipeline rt cfg out [(now, line), (now2, line2)] w =
                 w2\<lparr>trace := trace w @ LogInvalidJSON (trim line) # added w w2\<rparr>"
    if ok: "trim line2 \<noteq> []" "JSON_parse rt (trim line2) = Some payload"
  proof -
    let ?P = "HttpPost (API_URL cfg) (enrich payload (toISOString rt now2)) (POST_TIMEOUT_MS cfg)"
    from on_data_parsed_frame[OF ok, of cfg out now2 w]
    obtain es n where f: "\<And>tr. on_data rt cfg out now2 line2 (w\<lparr>trace := tr\<rparr>) =
        (Inr (), w\<lparr>trace := tr @ ?P # es, posts := n\<rparr>)"
      by blast
    let ?w2 = "w\<lparr>trace := trace w @ ?P # es, posts := n\<rparr>"
    have a: "on_data rt cfg out now2 line2 w = (Inr (), ?w2)"
      using f[of "trace w"] by simp
    have b: "added w ?w2 = ?P # es" by (simp add: added_def)
    have c: "pipeline rt cfg out [(now, line), (now2, line2)] w =
                 ?w2\<lparr>trace := trace w @ LogInvalidJSON (trim line) # added w ?w2\<rparr>"
      using f[of "trace w @ [LogInvalidJSON (trim line)]"] by (simp add: skip b)
    show ?thesis
      using a b c by blast
  qed
  show ?thesis
    using skip next_line by (simp add: added_def)
qed

theorem invalid_line_skipped_witness:
  "trim ''  not json  '' \<noteq> [] \<and> JSON_parse sample_runtime (trim ''  not json  '') = None
   \<and> trim temp_line \<noteq> []
   \<and> JSON_parse sample_runtime (trim temp_line) = Some (JObj [(''temp'', JNum (43 / 2))])
   \<and> on_data sample_runtime (CONFIG no_env) (bench endpoint_recovering) 0 ''  not json  '' initial
       = (Inr (), initial\<lparr>trace := [LogInvalidJSON ''not json'']\<rparr>)
   \<and> (\<exists>es. trace (pipeline sample_runtime (CONFIG no_env) (bench endpoint_recovering)
                    [(0, ''  not json  ''), (0, temp_line)] initial)
         = LogInvalidJSON ''not json''
           # HttpPost ''http://127.0.0.1:8000/telemetry''
               [(''temp'', JNum (43 / 2)), (''_ingested_at'', JStr ''1970-01-01T00:00:00.000Z''),
                (''_source'', JStr ''arduino-serial'')] 5000 # es)"
proof -
  have t: "trim ''  not json  '' = ''not json''" by (simp add: trim_def is_ws_def)
  have p: "JSON_parse sample_runtime ''not json'' = None"
    by (simp add: sample_runtime_def temp_line_def hi_line_def)
  have e: "enrich (JObj [(''temp'', JNum (43 / 2))]) (toISOString sample_runtime 0) =
      [(''temp'', JNum (43 / 2)), (''_ingested_at'', JStr ''1970-01-01T00:00:00.000Z''),
                (''_source'', JStr ''arduino-serial'')]"
    by (simp add: enrich_def copy_data_properties_def own_enumerable_def create_data_property_def
        sample_runtime_def)
  have c: "API_URL (CONFIG no_env) = ''http://127.0.0.1:8000/telemetry''"
     "POST_TIMEOUT_MS (CONFIG no_env) = 5000"
    by (simp_all add: CONFIG_def no_env_def env_or_def)
  from invalid_line_skipped[of "''  not json  ''" sample_runtime "CONFIG no_env"
      "bench endpoint_recovering" 0 initial "[]" temp_line "JObj [(''temp'', JNum (43 / 2))]" 0]
  have "on_data sample_runtime (CONFIG no_env) (bench endpoint_recovering) 0 ''  not json  '' initial
       = (Inr (), initial\<lparr>trace := [LogInvalidJSON ''not json'']\<rparr>)"
   and "\<exists>w2 es. added initial w2 = HttpPost (API_URL (CONFIG no_env))
                (enrich (JObj [(''temp'', JNum (43 / 2))]) (toISOString sample_runtime 0))
                               (POST_TIMEOUT_MS (CONFIG no_env)) # es
             \<and> pipeline sample_runtime (CONFIG no_env) (bench endpoint_recovering)
                    [(0, ''  not json  ''), (0, temp_line)] initial =
                 w2\<lparr>trace := trace initial @ LogInvalidJSON (trim ''  not json  '') # added initial w2\<rparr>"
    by (auto simp add: t p trim_temp_line parse_temp_line temp_line_nonempty initial_def)
  then show ?thesis
    by (auto simp add: t p trim_temp_line parse_temp_line temp_line_nonempty e c initial_def)
qed

lemma axios_post_ok_iff:
  "\<not> isl (axios_post x) \<longleftrightarrow> (\<exists>s. x = Response s \<and> 200 \<le> s \<and> s < 300)"
  by (cases x) (auto simp add: axios_post_def validateStatus_def)

text \<open>
  Claim C7. A request succeeds exactly when a response arrives with \<open>200 \<le> status < 300\<close>.
  On such a response \<^verbatim>\<open>postWithRetries\<close> returns after that one request; on any other
  status, on a missing response and on a timeout it is in its \<^verbatim>\<open>catch\<close>: it logs, sleeps and
  calls itself with one retry less while retries are left, and rethrows the error otherwise.
\<close>

theorem success_only_2xx:
  "(\<not> isl (axios_post x) \<longleftrightarrow> (\<exists>s. x = Response s \<and> 200 \<le> s \<and> s < 300))
   \<and> ((\<exists>s. http out (posts w) = Response s \<and> 200 \<le> s \<and> s < 300) \<longrightarrow>
        postWithRetries cfg out data r w =
          (Inr (), w\<lparr>trace := trace w @ [HttpPost (API_URL cfg) data (POST_TIMEOUT_MS cfg)],
                     posts := Suc (posts w)\<rparr>))
   \<and> (\<not> (\<exists>s. http out (posts w) = Response s \<and> 200 \<le> s \<and> s < 300) \<longrightarrow>
        postWithRetries cfg out data r w =
          (if 0 < r
           then postWithRetries cfg out data (r - 1)
                  (w\<lparr>posts := Suc (posts w),
                     trace := trace w @
                       [HttpPost (API_URL cfg) data (POST_TIMEOUT_MS cfg),
                        LogPostRetry (http_error out (posts w))
                          (POST_TIMEOUT_MS cfg * (MAX_POST_RETRIES cfg - r + 1)) r,
                        Sleep (POST_TIMEOUT_MS cfg * (MAX_POST_RETRIES cfg - r + 1))]\<rparr>)
           else (Inl (http_error out (posts w)),
                 w\<lparr>trace := trace w @ [HttpPost (API_URL cfg) data (POST_TIMEOUT_MS cfg)],
                    posts := Suc (posts w)\<rparr>)))"
proof (intro conjI impI)
  show "\<not> isl (axios_post x) \<longleftrightarrow> (\<exists>s. x = Response s \<and> 200 \<le> s \<and> s < 300)"
    by (rule axios_post_ok_iff)
next
  assume "\<exists>s. http out (posts w) = Response s \<and> 200 \<le> s \<and> s < 300"
  then have "\<not> isl (axios_post (http out (posts w)))"
    by (simp add: axios_post_ok_iff)
  then obtain s where "axios_post (http out (posts w)) = Inr s"
    by (cases "axios_post (http out (posts w))") auto
  then show "postWithRetries cfg out data r w =
          (Inr (), w\<lparr>trace := trace w @ [HttpPost (API_URL cfg) data (POST_TIMEOUT_MS cfg)],
                     posts := Suc (posts w)\<rparr>)"
    by (subst postWithRetries_step) simp
next
  assume "\<not> (\<exists>s. http out (posts w) = Response s \<and> 200 \<le> s \<and> s < 300)"
  then have "isl (axios_post (http out (posts w)))"
    using axios_post_ok_iff[of "http out (posts w)"] by blast
  then obtain e where e: "axios_post (http out (posts w)) = Inl e"
    by (cases "axios_post (http out (posts w))") auto
  then have "http_error out (posts w) = e"
    by (simp add: http_error_def)
  then show "postWithRetries cfg out data r w =
          (if 0 < r
           then postWithRetries cfg out data (r - 1)
                  (w\<lparr>posts := Suc (posts w),
                     trace := trace w @
                       [HttpPost (API_URL cfg) data (POST_TIMEOUT_MS cfg),
                        LogPostRetry (http_error out (posts w))
                          (POST_TIMEOUT_MS cfg * (MAX_POST_RETRIES cfg - r + 1)) r,
                        Sleep (POST_TIMEOUT_MS cfg * (MAX_POST_RETRIES cfg - r + 1))]\<rparr>)
           else (Inl (http_error out (posts w)),
                 w\<lparr>trace := trace w @ [HttpPost (API_URL cfg) data (POST_TIMEOUT_MS cfg)],
                    posts := Suc (posts w)\<rparr>))"
    by (subst postWithRetries_step) (simp add: e)
qed

theorem success_only_2xx_witness:
  "\<not> (\<exists>s. http (bench endpoint_recovering) (posts initial) = Response s \<and> 200 \<le> s \<and> s < 300)
   \<and> (\<exists>s. http (bench endpoint_recovering) 1 = Response s \<and> 200 \<le> s \<and> s < 300)
   \<and> postWithRetries (CONFIG no_env) (bench endpoint_recovering) [] 3 initial =
       (Inr (),
        initial\<lparr>trace := [HttpPost ''http://127.0.0.1:8000/telemetry'' [] 5000,
                           LogPostRetry (BadStatus 500) 5000 3, Sleep 5000,
                           HttpPost ''http://127.0.0.1:8000/telemetry'' [] 5000],
                 posts := 2\<rparr>)"
proof -
  let ?w1 = "initial\<lparr>posts := Suc (posts initial),
                     trace := trace initial @
                       [HttpPost (API_URL (CONFIG no_env)) [] (POST_TIMEOUT_MS (CONFIG no_env)),
                        LogPostRetry (http_error (bench endpoint_recovering) (posts initial))
                          (POST_TIMEOUT_MS (CONFIG no_env) * (MAX_POST_RETRIES (CONFIG no_env) - 3 + 1)) 3,
                        Sleep (POST_TIMEOUT_MS (CONFIG no_env) * (MAX_POST_RETRIES (CONFIG no_env) - 3 + 1))]\<rparr>"
  have h0: "http (bench endpoint_recovering) (posts initial) = Response 500"
    by (simp add: bench_def endpoint_recovering_def initial_def)
  have h1: "http (bench endpoint_recovering) (posts ?w1) = Response 200"
    by (simp add: bench_def endpoint_recovering_def initial_def)
  have c: "API_URL (CONFIG no_env) = ''http://127.0.0.1:8000/telemetry''"
     "POST_TIMEOUT_MS (CONFIG no_env) = 5000" "MAX_POST_RETRIES (CONFIG no_env) = 3"
    by (simp_all add: CONFIG_def no_env_def env_or_def)
  have g0: "\<not> (\<exists>s. http (bench endpoint_recovering) (posts initial) = Response s \<and> 200 \<le> s \<and> s < 300)"
    by (simp add: h0)
  have g1: "\<exists>s. http (bench endpoint_recovering) (posts ?w1) = Response s \<and> 200 \<le> s \<and> s < 300"
    by (simp only: h1) simp
  have first: "postWithRetries (CONFIG no_env) (bench endpoint_recovering) [] 3 initial =
      postWithRetries (CONFIG no_env) (bench endpoint_recovering) [] (3 - 1) ?w1"
    using mp[OF success_only_2xx[of "Response 500" "bench endpoint_recovering" initial
          "CONFIG no_env" "[]" 3, THEN conjunct2, THEN conjunct2] g0]
    by simp
  have second: "postWithRetries (CONFIG no_env) (bench endpoint_recovering) [] (3 - 1) ?w1 =
      (Inr (), ?w1\<lparr>trace := trace ?w1 @ [HttpPost (API_URL (CONFIG no_env)) [] (POST_TIMEOUT_MS (CONFIG no_env))],
                     posts := Suc (posts ?w1)\<rparr>)"
    by (rule mp[OF success_only_2xx[of "Response 200" "bench endpoint_recovering" ?w1
          "CONFIG no_env" "[]" "3 - 1", THEN conjunct2, THEN conjunct1] g1])
  show ?thesis
    unfolding first second
    by (simp add: c initial_def bench_def endpoint_recovering_def http_error_def axios_post_def
        validateStatus_def)
qed


subsection \<open>Enrichment\<close>

lemma update_absent: "k \<notin> fst ` set al \<Longrightarrow> AList.update k v al = al @ [(k, v)]"
  by (induction al) auto

lemma update_present_commute:
  "k \<in> fst ` set al \<Longrightarrow> k \<noteq> k' \<Longrightarrow>
   AList.update k v (AList.update k' v' al) = AList.update k' v' (AList.update k v al)"
  by (induction al) auto

lemma filter_update_other:
  "\<not> P k \<Longrightarrow> filter (\<lambda>(k', v'). P k') (AList.update k v al) = filter (\<lambda>(k', v'). P k') al"
  by (induction al) auto

lemma one_entry_per_key:
  "distinct (map fst al) \<Longrightarrow> k \<in> fst ` set al \<Longrightarrow> length (filter (\<lambda>(k', v'). k' = k) al) = 1"
proof (induction al)
  case Nil
  then show ?case by simp
next
  case (Cons p al)
  show ?case
  proof (cases "fst p = k")
    case True
    with Cons.prems have "k \<notin> fst ` set al" by auto
    then have "filter (\<lambda>(k', v'). k' = k) al = []"
      by (force simp add: filter_empty_conv)
    with True show ?thesis by (cases p) simp
  next
    case False
    with Cons show ?thesis by (cases p) auto
  qed
qed

lemma fold_update_fresh:
  "distinct (map fst ps) \<Longrightarrow> fst ` set ps \<inter> fst ` set acc = {} \<Longrightarrow>
   fold (\<lambda>(k, v) obj. create_data_property obj k v) ps acc = acc @ ps"
proof (induction ps arbitrary: acc)
  case Nil
  then show ?case by simp
next
  case (Cons p ps)
  obtain k v where p: "p = (k, v)" by (cases p)
  from Cons.prems have fresh: "k \<notin> fst ` set acc" by (auto simp add: p)
  from Cons.prems have "fst ` set ps \<inter> fst ` set (acc @ [(k, v)]) = {}"
    by (auto simp add: p)
  with Cons.IH[of "acc @ [(k, v)]"] Cons.prems show ?case
    by (simp add: p create_data_property_def update_absent[OF fresh])
qed

lemma fold_update_distinct:
  "distinct (map fst acc) \<Longrightarrow>
   distinct (map fst (fold (\<lambda>(k, v) obj. create_data_property obj k v) ps acc))"
  by (induction ps arbitrary: acc)
     (auto simp add: create_data_property_def distinct_update)

lemma copy_object:
  "distinct (map fst props) \<Longrightarrow> copy_data_properties [] (JObj props) = props"
  using fold_update_fresh[of props "[]"]
  by (simp add: copy_data_properties_def own_enumerable_def)

lemma copy_distinct: "distinct (map fst (copy_data_properties [] payload))"
  unfolding copy_data_properties_def by (rule fold_update_distinct) simp

lemma enrich_distinct: "distinct (map fst (enrich payload now))"
  by (simp add: enrich_def create_data_property_def distinct_update copy_distinct)

lemma enrich_keys:
  "fst ` set (enrich payload now) =
     fst ` set (copy_data_properties [] payload) \<union> {''_ingested_at'', ''_source''}"
  by (auto simp add: enrich_def create_data_property_def dom_update)

lemma enrich_lookup:
  "map_of (enrich payload now) =
     (map_of (copy_data_properties [] payload))
       (''_ingested_at'' \<mapsto> JStr now, ''_source'' \<mapsto> JStr ''arduino-serial'')"
  by (simp add: enrich_def create_data_property_def update_conv')

lemma object_literal_fresh:
  assumes "payload < length h"
  shows "object_literal h payload now = (h @ [enrich (JObj (h ! payload)) now], length h)"
  using assms
  by (simp add: object_literal_def Let_def enrich_def nth_append)

text \<open>
  Claim C2. For a payload that is an object (its property names distinct, as those of every
  object are) and a rendered clock reading \<open>now\<close>, the enriched object has the names of the
  payload together with \<^verbatim>\<open>_ingested_at\<close> and \<^verbatim>\<open>_source\<close>, each name once; \<^verbatim>\<open>_ingested_at\<close> holds
  \<open>now\<close> and \<^verbatim>\<open>_source\<close> holds \<^verbatim>\<open>arduino-serial\<close>; every other field is the payload's, with its
  value and in the payload's order. On a store of objects the literal puts this object into a
  new cell and leaves every cell there was, the payload's among them, as it is.
\<close>

theorem enrich_adds_two_fields:
  assumes "distinct (map fst props)" and "payload < length h" and "h ! payload = props"
  shows "map_of (enrich (JObj props) now) =
           (map_of props)(''_ingested_at'' \<mapsto> JStr now, ''_source'' \<mapsto> JStr ''arduino-serial'')
     \<and> fst ` set (enrich (JObj props) now) = fst ` set props \<union> {''_ingested_at'', ''_source''}
     \<and> distinct (map fst (enrich (JObj props) now))
     \<and> filter (\<lambda>(k, v). k \<noteq> ''_ingested_at'' \<and> k \<noteq> ''_source'') (enrich (JObj props) now) =
         filter (\<lambda>(k, v). k \<noteq> ''_ingested_at'' \<and> k \<noteq> ''_source'') props
     \<and> length (filter (\<lambda>(k, v). k = ''_ingested_at'') (enrich (JObj props) now)) = 1
     \<and> length (filter (\<lambda>(k, v). k = ''_source'') (enrich (JObj props) now)) = 1
     \<and> (\<exists>h' enriched. object_literal h payload now = (h', enriched)
          \<and> enriched = length h
          \<and> h' ! enriched = enrich (JObj props) now
          \<and> take (length h) h' = h
          \<and> h' ! payload = props)"
proof -
  have keys: "fst ` set (enrich (JObj props) now) = fst ` set props \<union> {''_ingested_at'', ''_source''}"
    by (simp add: enrich_keys copy_object[OF assms(1)])
  have rest: "filter (\<lambda>(k, v). k \<noteq> ''_ingested_at'' \<and> k \<noteq> ''_source'') (enrich (JObj props) now) =
         filter (\<lambda>(k, v). k \<noteq> ''_ingested_at'' \<and> k \<noteq> ''_source'') props"
    by (simp add: enrich_def create_data_property_def copy_object[OF assms(1)]
          filter_update_other[of "\<lambda>k. k \<noteq> ''_ingested_at'' \<and> k \<noteq> ''_source''"])
  have store: "\<exists>h' enriched. object_literal h payload now = (h', enriched)
          \<and> enriched = length h
          \<and> h' ! enriched = enrich (JObj props) now
          \<and> take (length h) h' = h
          \<and> h' ! payload = props"
    using assms(2,3) by (simp add: object_literal_fresh nth_append)
  show ?thesis
    using keys rest store
    by (simp add: enrich_lookup copy_object[OF assms(1)] enrich_distinct one_entry_per_key)
qed

theorem enrich_adds_two_fields_witness:
  "distinct (map fst [(''temp'', JNum (43 / 2)), (''_source'', JStr ''uno'')])
   \<and> (0::nat) < length [[(''temp'', JNum (43 / 2)), (''_source'', JStr ''uno'')]]
   \<and> enrich (JObj [(''temp'', JNum (43 / 2)), (''_source'', JStr ''uno'')]) ''1970-01-01T00:00:00.000Z''
       = [(''temp'', JNum (43 / 2)), (''_source'', JStr ''arduino-serial''),
          (''_ingested_at'', JStr ''1970-01-01T00:00:00.000Z'')]
   \<and> fst ` set (enrich (JObj [(''temp'', JNum (43 / 2)), (''_source'', JStr ''uno'')])
                   ''1970-01-01T00:00:00.000Z'')
       = {''temp'', ''_source'', ''_ingested_at''}
   \<and> object_literal [[(''temp'', JNum (43 / 2)), (''_source'', JStr ''uno'')]] 0
         ''1970-01-01T00:00:00.000Z''
       = ([[(''temp'', JNum (43 / 2)), (''_source'', JStr ''uno'')],
           [(''temp'', JNum (43 / 2)), (''_source'', JStr ''arduino-serial''),
            (''_ingested_at'', JStr ''1970-01-01T00:00:00.000Z'')]], 1)"
  using enrich_adds_two_fields[of "[(''temp'', JNum (43 / 2)), (''_source'', JStr ''uno'')]" 0
      "[[(''temp'', JNum (43 / 2)), (''_source'', JStr ''uno'')]]" "''1970-01-01T00:00:00.000Z''"]
  by (auto simp add: enrich_def copy_data_properties_def own_enumerable_def create_data_property_def
        object_literal_def Let_def)

text \<open>
  Claim C5. Enriching an enriched object again, with another clock reading, gives what
  enriching the payload once with the later reading gives: one \<^verbatim>\<open>_ingested_at\<close>, holding the
  later reading, and one \<^verbatim>\<open>_source\<close>. For every payload, also one that brings fields of these
  two names, the enriched object has each of the two names exactly once, with the values the
  script assigns.
\<close>

theorem enrich_overwrites:
  "enrich (JObj (enrich payload t1)) t2 = enrich payload t2
   \<and> map_of (enrich (JObj (enrich payload t1)) t2) ''_ingested_at'' = Some (JStr t2)
   \<and> length (filter (\<lambda>(k, v). k = ''_ingested_at'') (enrich (JObj (enrich payload t1)) t2)) = 1
   \<and> length (filter (\<lambda>(k, v). k = ''_source'') (enrich (JObj (enrich payload t1)) t2)) = 1
   \<and> map_of (enrich payload now) ''_ingested_at'' = Some (JStr now)
   \<and> map_of (enrich payload now) ''_source'' = Some (JStr ''arduino-serial'')
   \<and> length (filter (\<lambda>(k, v). k = ''_ingested_at'') (enrich payload now)) = 1
   \<and> length (filter (\<lambda>(k, v). k = ''_source'') (enrich payload now)) = 1"
proof -
  let ?c = "copy_data_properties [] payload"
  have present: "''_ingested_at'' \<in> fst ` set (AList.update ''_ingested_at'' (JStr t1) ?c)"
    by (simp add: dom_update)
  have "enrich (JObj (enrich payload t1)) t2 =
          AList.update ''_source'' (JStr ''arduino-serial'')
            (AList.update ''_ingested_at'' (JStr t2)
               (AList.update ''_source'' (JStr ''arduino-serial'')
                  (AList.update ''_ingested_at'' (JStr t1) ?c)))"
    using copy_object[OF enrich_distinct[of payload t1]]
    by (simp add: enrich_def[of "JObj (enrich payload t1)"] create_data_property_def)
       (simp add: enrich_def create_data_property_def)
  also have "\<dots> = AList.update ''_source'' (JStr ''arduino-serial'')
            (AList.update ''_source'' (JStr ''arduino-serial'')
               (AList.update ''_ingested_at'' (JStr t2)
                  (AList.update ''_ingested_at'' (JStr t1) ?c)))"
    using update_present_commute[OF present, of "''_source''" "JStr t2" "JStr ''arduino-serial''"]
    by simp
  also have "\<dots> = enrich payload t2"
    by (simp add: enrich_def create_data_property_def)
  finally have twice: "enrich (JObj (enrich payload t1)) t2 = enrich payload t2" .
  have one: "\<And>t. length (filter (\<lambda>(k, v). k = ''_ingested_at'') (enrich payload t)) = 1"
    "\<And>t. length (filter (\<lambda>(k, v). k = ''_source'') (enrich payload t)) = 1"
    by (simp_all add: one_entry_per_key enrich_distinct enrich_keys)
  show ?thesis
    unfolding twice using one by (simp add: enrich_lookup)
qed


lemma digit_nth: "n < 10 \<Longrightarrow> of_char (''0123456789'' ! n) = 48 + n"
proof -
  assume "n < 10"
  then have "n \<in> {0, 1, 2, 3, 4, 5, 6, 7, 8, 9}" by auto
  then show ?thesis by auto
qed

lemma string_of_nat_value: "decimal_value (string_of_nat n) = n"
proof (induction n rule: string_of_nat.induct)
  case (1 n)
  show ?case
  proof (cases "n < 10")
    case True
    then show ?thesis
      by (subst string_of_nat.simps) (simp add: decimal_value_def digit_nth)
  next
    case False
    with 1 have "decimal_value (string_of_nat (n div 10)) = n div 10" by simp
    with False show ?thesis
      by (subst string_of_nat.simps) (simp add: decimal_value_def digit_nth)
  qed
qed

lemma string_of_nat_inj: "inj string_of_nat"
  by (rule inj_on_inverseI[of _ decimal_value]) (rule string_of_nat_value)

lemma string_of_nat_digits: "set (string_of_nat n) \<subseteq> set ''0123456789''"
proof (induction n rule: string_of_nat.induct)
  case (1 n)
  have d: "\<And>m. m < 10 \<Longrightarrow> ''0123456789'' ! m \<in> set ''0123456789''"
    by (rule nth_mem) simp
  show ?case
  proof (cases "n < 10")
    case True
    then show ?thesis
      using d[of n] by (subst string_of_nat.simps) simp
  next
    case False
    with 1 have "set (string_of_nat (n div 10)) \<subseteq> set ''0123456789''" by simp
    with False show ?thesis
      using d[of "n mod 10"] by (subst string_of_nat.simps) simp
  qed
qed

lemma index_not_reserved:
  "string_of_nat n \<noteq> ''_ingested_at''" "string_of_nat n \<noteq> ''_source''"
  using string_of_nat_digits[of n] by auto

lemma index_keys_distinct: "distinct (map string_of_nat [0..<n])"
  by (simp add: distinct_map inj_on_subset[OF string_of_nat_inj])

lemma enrich_indexed:
  assumes "own_enumerable payload = zip (map string_of_nat [0..<length vs]) vs"
  shows "enrich payload now =
     zip (map string_of_nat [0..<length vs]) vs
     @ [(''_ingested_at'', JStr now), (''_source'', JStr ''arduino-serial'')]"
proof -
  let ?ps = "zip (map string_of_nat [0..<length vs]) vs"
  have keys: "map fst ?ps = map string_of_nat [0..<length vs]" by simp
  have c: "copy_data_properties [] payload = ?ps"
    using fold_update_fresh[of ?ps "[]"]
    by (simp add: copy_data_properties_def assms keys index_keys_distinct del: map_fst_zip)
  have other: "k \<noteq> ''_ingested_at'' \<and> k \<noteq> ''_source''" if mem: "k \<in> fst ` set ?ps" for k
  proof -
    have "fst ` set ?ps = set (map fst ?ps)" by (simp only: set_map)
    also have "\<dots> = set (map string_of_nat [0..<length vs])" by (simp only: keys)
    finally obtain n where "k = string_of_nat n" using mem by auto
    then show ?thesis by (simp add: index_not_reserved)
  qed
  have i: "''_ingested_at'' \<notin> fst ` set ?ps"
    using other by blast
  have s: "''_source'' \<notin> fst ` set (?ps @ [(''_ingested_at'', JStr now)])"
    using other by auto
  show ?thesis
    by (simp add: enrich_def create_data_property_def c update_absent[OF i] update_absent[OF s]
          del: set_append)
qed

lemma on_data_accepts:
  assumes "trim line \<noteq> []" and "JSON_parse rt (trim line) = Some payload"
  shows "\<exists>w' es. on_data rt cfg out now line w = (Inr (), w')
       \<and> added w w' = HttpPost (API_URL cfg) (enrich payload (toISOString rt now))
                          (POST_TIMEOUT_MS cfg) # es"
proof -
  from on_data_parsed_frame[OF assms, of cfg out now w]
  obtain es n where "on_data rt cfg out now line (w\<lparr>trace := trace w\<rparr>) =
       (Inr (), w\<lparr>trace := trace w @ HttpPost (API_URL cfg) (enrich payload (toISOString rt now))
                                  (POST_TIMEOUT_MS cfg) # es, posts := n\<rparr>)"
    by blast
  then show ?thesis by (simp add: added_def)
qed

text \<open>
  Claim C10, as stated, fails for a string: the line \<^verbatim>\<open>"hi"\<close> parses to the string \<^verbatim>\<open>hi\<close>, a
  primitive, and the spread copies its two code units under the keys 0 and 1, so the body of
  the POST has four fields.
\<close>

theorem string_payload_counterexample:
  "JSON_parse sample_runtime (trim hi_line) = Some (JStr ''hi'')
   \<and> (\<exists>es. added initial
               (snd (on_data sample_runtime (CONFIG no_env) (bench endpoint_recovering) 0 hi_line initial))
        = HttpPost ''http://127.0.0.1:8000/telemetry''
            [(''0'', JStr ''h''), (''1'', JStr ''i''),
             (''_ingested_at'', JStr ''1970-01-01T00:00:00.000Z''),
             (''_source'', JStr ''arduino-serial'')] 5000 # es)"
proof -
  have t: "trim hi_line = hi_line" by (simp add: trim_def hi_line_def is_ws_def)
  have n: "hi_line \<noteq> []" by (simp add: hi_line_def)
  have p: "JSON_parse sample_runtime hi_line = Some (JStr ''hi'')"
    by (simp add: sample_runtime_def temp_line_def hi_line_def)
  have e: "enrich (JStr ''hi'') (toISOString sample_runtime 0) =
      [(''0'', JStr ''h''), (''1'', JStr ''i''),
       (''_ingested_at'', JStr ''1970-01-01T00:00:00.000Z''),
       (''_source'', JStr ''arduino-serial'')]"
    by (simp add: enrich_def copy_data_properties_def own_enumerable_def create_data_property_def
        sample_runtime_def string_of_nat.simps upt_rec)
  have c: "API_URL (CONFIG no_env) = ''http://127.0.0.1:8000/telemetry''"
     "POST_TIMEOUT_MS (CONFIG no_env) = 5000"
    by (simp_all add: CONFIG_def no_env_def env_or_def)
  from on_data_accepts[of hi_line sample_runtime "JStr ''hi''" "CONFIG no_env"
      "bench endpoint_recovering" 0 initial]
  show ?thesis by (auto simp add: t n p e c)
qed

text \<open>
  Claim C10, amended. A line that parses to any JSON value, object or not, is enriched and
  posted. The spread adds no field for \<^verbatim>\<open>null\<close>, a boolean or a number, so that the body has
  the two reserved fields only; for a string it adds one field per code unit, under the
  indices of the string (none for the empty string); for an array it adds the elements under
  their indices; the two reserved fields follow.
\<close>

theorem non_object_payloads:
  "enrich JNull now = [(''_ingested_at'', JStr now), (''_source'', JStr ''arduino-serial'')]
   \<and> enrich (JBool b) now = [(''_ingested_at'', JStr now), (''_source'', JStr ''arduino-serial'')]
   \<and> enrich (JNum x) now = [(''_ingested_at'', JStr now), (''_source'', JStr ''arduino-serial'')]
   \<and> enrich (JStr s) now =
         zip (map string_of_nat [0..<length s]) (map (\<lambda>c. JStr [c]) s)
         @ [(''_ingested_at'', JStr now), (''_source'', JStr ''arduino-serial'')]
   \<and> enrich (JArr xs) now =
         zip (map string_of_nat [0..<length xs]) xs
         @ [(''_ingested_at'', JStr now), (''_source'', JStr ''arduino-serial'')]
   \<and> (trim line \<noteq> [] \<and> JSON_parse rt (trim line) = Some payload \<longrightarrow>
        (\<exists>w' es. on_data rt cfg out t line w = (Inr (), w')
           \<and> added w w' = HttpPost (API_URL cfg) (enrich payload (toISOString rt t))
                              (POST_TIMEOUT_MS cfg) # es))"
proof -
  have prim: "enrich JNull now = [(''_ingested_at'', JStr now), (''_source'', JStr ''arduino-serial'')]"
    "enrich (JBool b) now = [(''_ingested_at'', JStr now), (''_source'', JStr ''arduino-serial'')]"
    "enrich (JNum x) now = [(''_ingested_at'', JStr now), (''_source'', JStr ''arduino-serial'')]"
    by (simp_all add: enrich_def copy_data_properties_def own_enumerable_def create_data_property_def)
  have str: "enrich (JStr s) now =
         zip (map string_of_nat [0..<length s]) (map (\<lambda>c. JStr [c]) s)
         @ [(''_ingested_at'', JStr now), (''_source'', JStr ''arduino-serial'')]"
    using enrich_indexed[of "JStr s" "map (\<lambda>c. JStr [c]) s" now]
    by (simp add: own_enumerable_def)
  have arr: "enrich (JArr xs) now =
         zip (map string_of_nat [0..<length xs]) xs
         @ [(''_ingested_at'', JStr now), (''_source'', JStr ''arduino-serial'')]"
    using enrich_indexed[of "JArr xs" xs now]
    by (simp add: own_enumerable_def)
  show ?thesis
    using prim str arr on_data_accepts[of line rt payload cfg out t w] by blast
qed

theorem non_object_payloads_witness:
  "trim ''[10,20]'' \<noteq> [] \<and> JSON_parse sample_runtime (trim ''[10,20]'') = Some (JArr [JNum 10, JNum 20])
   \<and> (\<exists>es. added initial
               (snd (on_data sample_runtime (CONFIG no_env) (bench endpoint_recovering) 0 ''[10,20]'' initial))
        = HttpPost ''http://127.0.0.1:8000/telemetry''
            [(''0'', JNum 10), (''1'', JNum 20),
             (''_ingested_at'', JStr ''1970-01-01T00:00:00.000Z''),
             (''_source'', JStr ''arduino-serial'')] 5000 # es)"
proof -
  have t: "trim ''[10,20]'' = ''[10,20]''" by (simp add: trim_def is_ws_def)
  have p: "JSON_parse sample_runtime ''[10,20]'' = Some (JArr [JNum 10, JNum 20])"
    by (simp add: sample_runtime_def temp_line_def hi_line_def)
  have i: "toISOString sample_runtime 0 = ''1970-01-01T00:00:00.000Z''"
    by (simp add: sample_runtime_def)
  have k: "map string_of_nat [0..<length [JNum 10, JNum 20]] = [''0'', ''1'']"
    by (simp add: string_of_nat.simps upt_rec)
  have c: "API_URL (CONFIG no_env) = ''http://127.0.0.1:8000/telemetry''"
     "POST_TIMEOUT_MS (CONFIG no_env) = 5000"
    by (simp_all add: CONFIG_def no_env_def env_or_def)
  note inst = non_object_payloads[where now = "toISOString sample_runtime 0"
      and b = True and x = 0 and s = "[]" and xs = "[JNum 10, JNum 20]" and line = "''[10,20]''" and rt = sample_runtime
      and payload = "JArr [JNum 10, JNum 20]" and cfg = "CONFIG no_env"
      and out = "bench endpoint_recovering" and t = 0 and w = initial]
  from inst have arr: "enrich (JArr [JNum 10, JNum 20]) (toISOString sample_runtime 0) =
         zip (map string_of_nat [0..<length [JNum 10, JNum 20]]) [JNum 10, JNum 20]
         @ [(''_ingested_at'', JStr (toISOString sample_runtime 0)), (''_source'', JStr ''arduino-serial'')]"
    by blast
  have hyp: "trim ''[10,20]'' \<noteq> []
      \<and> JSON_parse sample_runtime (trim ''[10,20]'') = Some (JArr [JNum 10, JNum 20])"
    by (simp add: t p)
  from inst hyp have "\<exists>w' es. on_data sample_runtime (CONFIG no_env) (bench endpoint_recovering) 0 ''[10,20]'' initial = (Inr (), w')
           \<and> added initial w' = HttpPost (API_URL (CONFIG no_env))
                  (enrich (JArr [JNum 10, JNum 20]) (toISOString sample_runtime 0))
                              (POST_TIMEOUT_MS (CONFIG no_env)) # es"
    by blast
  then show ?thesis
    using hyp unfolding arr k by (auto simp add: i c)
qed


subsection \<open>Discovery\<close>

lemma find_first:
  "P p \<Longrightarrow> \<forall>q \<in> set pre. \<not> P q \<Longrightarrow> find P (pre @ p # post) = Some p"
  by (induction pre) auto

lemma prefix_of_Cons_other: "sp \<notin> set w \<Longrightarrow> prefix w (sp # b) \<longleftrightarrow> w = []"
  by (cases w) auto

lemma sublist_across:
  assumes "sp \<notin> set w"
  shows "sublist w (a @ sp # b) \<longleftrightarrow> sublist w a \<or> sublist w b"
proof
  assume "sublist w (a @ sp # b)"
  then consider "sublist w a" | "sublist w (sp # b)"
    | w1 w2 where "w = w1 @ w2" "suffix w1 a" "prefix w2 (sp # b)"
    by (auto simp add: sublist_append)
  then show "sublist w a \<or> sublist w b"
  proof cases
    case 1
    then show ?thesis by simp
  next
    case 2
    then show ?thesis
      using assms by (auto simp add: sublist_Cons_right prefix_of_Cons_other)
  next
    case 3
    from assms 3(1) have "sp \<notin> set w2" by simp
    with 3(3) have "w2 = []" by (simp add: prefix_of_Cons_other)
    with 3 show ?thesis by auto
  qed
next
  assume "sublist w a \<or> sublist w b"
  then show "sublist w (a @ sp # b)"
    by (auto simp add: sublist_append sublist_Cons_right)
qed

lemma lower_space: "lower CHR '' '' = CHR '' ''"
  by (simp add: lower_def)

lemma looks_like_arduino_fields:
  "looks_like_arduino (describe p) \<longleftrightarrow>
     looks_like_arduino (or_empty (manufacturer p))
     \<or> looks_like_arduino (or_empty (friendlyName p))
     \<or> looks_like_arduino (path p)"
proof -
  have split: "sublist w (map lower (describe p)) \<longleftrightarrow>
      sublist w (map lower (or_empty (manufacturer p)))
      \<or> sublist w (map lower (or_empty (friendlyName p)))
      \<or> sublist w (map lower (path p))" if "CHR '' '' \<notin> set w" for w
    using that by (simp add: describe_def lower_space sublist_across)
  show ?thesis
    unfolding looks_like_arduino_def
    by (subst split, simp)+ blast
qed

text \<open>
  Claim C6. \<^verbatim>\<open>autoDetectPort\<close> has no error result. It answers the path of the first listed port
  whose description (manufacturer, friendly name and path, which the pattern reads one by
  one, as no word of it has a space) contains arduino, wch or usb in any case; when there is
  none, the path of the first port whose path is COM and digits; when there is none either,
  and when the listing fails, \<^verbatim>\<open>COM3\<close>.
\<close>

theorem autoDetectPort_policy:
  "autoDetectPort (Inl err) = ''COM3''
   \<and> (looks_like_arduino (describe p) \<and> (\<forall>q \<in> set pre. \<not> looks_like_arduino (describe q)) \<longrightarrow>
        autoDetectPort (Inr (pre @ p # post)) = path p)
   \<and> ((\<forall>q \<in> set (pre @ p # post). \<not> looks_like_arduino (describe q))
        \<and> is_COM (path p) \<and> (\<forall>q \<in> set pre. \<not> is_COM (path q)) \<longrightarrow>
        autoDetectPort (Inr (pre @ p # post)) = path p)
   \<and> ((\<forall>q \<in> set ports. \<not> looks_like_arduino (describe q) \<and> \<not> is_COM (path q)) \<longrightarrow>
        autoDetectPort (Inr ports) = ''COM3'')
   \<and> (looks_like_arduino (describe p) \<longleftrightarrow>
        looks_like_arduino (or_empty (manufacturer p))
        \<or> looks_like_arduino (or_empty (friendlyName p))
        \<or> looks_like_arduino (path p))"
proof (intro conjI impI)
  show "autoDetectPort (Inl err) = ''COM3''"
    by (simp add: autoDetectPort_def)
next
  assume "looks_like_arduino (describe p) \<and> (\<forall>q \<in> set pre. \<not> looks_like_arduino (describe q))"
  then have "find (\<lambda>p. looks_like_arduino (describe p)) (pre @ p # post) = Some p"
    by (simp add: find_first)
  then show "autoDetectPort (Inr (pre @ p # post)) = path p"
    by (simp add: autoDetectPort_def)
next
  assume a: "(\<forall>q \<in> set (pre @ p # post). \<not> looks_like_arduino (describe q))
        \<and> is_COM (path p) \<and> (\<forall>q \<in> set pre. \<not> is_COM (path q))"
  then have "find (\<lambda>p. looks_like_arduino (describe p)) (pre @ p # post) = None"
    by (auto simp add: find_None_iff)
  moreover from a have "find (\<lambda>p. is_COM (path p)) (pre @ p # post) = Some p"
    by (simp add: find_first)
  ultimately show "autoDetectPort (Inr (pre @ p # post)) = path p"
    by (simp add: autoDetectPort_def)
next
  assume a: "\<forall>q \<in> set ports. \<not> looks_like_arduino (describe q) \<and> \<not> is_COM (path q)"
  then have "find (\<lambda>p. looks_like_arduino (describe p)) ports = None"
    "find (\<lambda>p. is_COM (path p)) ports = None"
    by (simp_all add: find_None_iff)
  then show "autoDetectPort (Inr ports) = ''COM3''"
    by (simp add: autoDetectPort_def)
next
  show "looks_like_arduino (describe p) \<longleftrightarrow>
        looks_like_arduino (or_empty (manufacturer p))
        \<or> looks_like_arduino (or_empty (friendlyName p))
        \<or> looks_like_arduino (path p)"
    by (rule looks_like_arduino_fields)
qed


theorem autoDetectPort_policy_witness:
  "looks_like_arduino (describe wch_port)
   \<and> \<not> looks_like_arduino (describe com1_port)
   \<and> autoDetectPort (Inr [com1_port, wch_port]) = ''COM7''
   \<and> is_COM (path com1_port)
   \<and> autoDetectPort (Inr [com1_port]) = ''COM1''
   \<and> autoDetectPort (Inr []) = ''COM3''
   \<and> autoDetectPort (Inl (ListError ''Access denied'')) = ''COM3''"
proof -
  have wch: "looks_like_arduino (describe wch_port)"
    by code_simp
  have com1: "\<not> looks_like_arduino (describe com1_port)"
    by code_simp
  have com: "is_COM (path com1_port)"
    by code_simp
  have p1: "path wch_port = ''COM7''" "path com1_port = ''COM1''"
    by (simp_all add: wch_port_def com1_port_def)
  note policy = autoDetectPort_policy[where err = "ListError ''Access denied''" and ports = "[]"
      and post = "[]"]
  have a: "autoDetectPort (Inr ([com1_port] @ wch_port # [])) = path wch_port"
    by (rule mp[OF policy[where p = wch_port and pre = "[com1_port]",
            THEN conjunct2, THEN conjunct1]])
       (simp add: wch com1)
  have b: "autoDetectPort (Inr ([] @ com1_port # [])) = path com1_port"
    by (rule mp[OF policy[where p = com1_port and pre = "[]",
            THEN conjunct2, THEN conjunct2, THEN conjunct1]])
       (simp add: com com1)
  have c: "autoDetectPort (Inr []) = ''COM3''"
    by (rule mp[OF policy[where p = com1_port and pre = "[]",
            THEN conjunct2, THEN conjunct2, THEN conjunct2, THEN conjunct1]])
       simp
  have d: "autoDetectPort (Inl (ListError ''Access denied'')) = ''COM3''"
    by (rule policy[where p = com1_port and pre = "[]", THEN conjunct1])
  show ?thesis
    using a b c d wch com1 com by (simp add: p1)
qed


subsection \<open>The connection loop\<close>

lemma observe_append: "observe (xs @ ys) = observe xs @ observe ys"
  by (induction xs rule: observe.induct) auto

lemma failed_round_read:
  "device out n \<noteq> OpenOk \<Longrightarrow>
     observe (failed_round cfg out n) =
       [State Connecting, State Disconnected, Wait (CONNECT_RETRY_MS cfg)]
     \<and> waits (failed_round cfg out n) = [CONNECT_RETRY_MS cfg]
     \<and> length (filter is_NewSerialPort (failed_round cfg out n)) = 1"
  by (cases "device out n") (simp_all add: failed_round_def)

lemma opening_round_read:
  "observe (opening_round cfg out n) = [State Connecting, State Open, StreamStarts]
   \<and> waits (opening_round cfg out n) = []
   \<and> length (filter is_NewSerialPort (opening_round cfg out n)) = 1"
  by (simp add: opening_round_def)

lemma ensureOpen_body_fails:
  assumes "device out (opens w) \<noteq> OpenOk"
  shows "ensureOpen_body cfg out w =
     Inl (w\<lparr>opens := Suc (opens w), trace := trace w @ failed_round cfg out (opens w)\<rparr>)"
  using assms
  by (cases "device out (opens w)")
     (simp_all add: ensureOpen_body_def openPort_def Let_def failed_round_def chosen_path_def)

lemma ensureOpen_body_opens:
  assumes "device out (opens w) = OpenOk"
  shows "ensureOpen_body cfg out w =
       Inr (w\<lparr>opens := Suc (opens w),
               port := Some \<lparr>sp_path = chosen_path cfg out (opens w), isOpen = True\<rparr>,
               parser := Some (LINE_DELIMITER cfg),
               trace := trace w @ opening_round cfg out (opens w)\<rparr>)"
  using assms
  by (simp add: ensureOpen_body_def openPort_def Let_def wireHandlers_def opening_round_def
        chosen_path_def)

lemma ensureOpen_upto_fails:
  "\<forall>i<n. device out (opens w + i) \<noteq> OpenOk \<Longrightarrow>
   ensureOpen_upto n cfg out w =
     Inl (w\<lparr>opens := opens w + n,
             trace := trace w @ concat (map (failed_round cfg out) [opens w..<opens w + n])\<rparr>)"
proof (induction n arbitrary: w)
  case 0
  show ?case by simp
next
  case (Suc n)
  from Suc.prems have first: "device out (opens w) \<noteq> OpenOk" by force
  let ?w1 = "w\<lparr>opens := Suc (opens w), trace := trace w @ failed_round cfg out (opens w)\<rparr>"
  from Suc.prems have "\<forall>i<n. device out (opens ?w1 + i) \<noteq> OpenOk" by force
  from Suc.IH[OF this] show ?case
    by (simp add: ensureOpen_body_fails[OF first] upt_conv_Cons del: upt_Suc)
qed

lemma failed_rounds_read:
  "\<forall>i<n. device out (k + i) \<noteq> OpenOk \<Longrightarrow>
     observe (concat (map (failed_round cfg out) [k..<k + n])) =
       concat (replicate n [State Connecting, State Disconnected, Wait (CONNECT_RETRY_MS cfg)])
     \<and> waits (concat (map (failed_round cfg out) [k..<k + n])) = replicate n (CONNECT_RETRY_MS cfg)
     \<and> length (filter is_NewSerialPort (concat (map (failed_round cfg out) [k..<k + n]))) = n"
proof (induction n arbitrary: k)
  case 0
  show ?case by simp
next
  case (Suc n)
  from Suc.prems have first: "device out k \<noteq> OpenOk" by force
  from Suc.prems have "\<forall>i<n. device out (Suc k + i) \<noteq> OpenOk" by force
  from Suc.IH[OF this] failed_round_read[OF first, of cfg] show ?case
    by (simp add: upt_conv_Cons observe_append waits_append del: upt_Suc)
qed

lemma ensureOpen_unroll:
  "ensureOpen cfg out w =
     (case ensureOpen_upto n cfg out w of Inr w' \<Rightarrow> Some w' | Inl w' \<Rightarrow> ensureOpen cfg out w')"
proof (induction n arbitrary: w)
  case 0
  show ?case by simp
next
  case (Suc n)
  show ?case
    by (subst ensureOpen.simps) (simp add: Suc split: sum.splits)
qed

lemma ensureOpen_returns_after_open:
  assumes "ensureOpen cfg out w = Some w'"
  shows "\<exists>i. device out (opens w + i) = OpenOk"
proof (rule ensureOpen.raw_induct[where P = "\<lambda>cfg out w w'. \<exists>i. device out (opens w + i) = OpenOk",
      OF _ assms], goal_cases)
  case (1 f cfg out w w')
  show ?case
  proof (cases "device out (opens w) = OpenOk")
    case True
    then show ?thesis by (metis add.right_neutral)
  next
    case False
    let ?w1 = "w\<lparr>opens := Suc (opens w), trace := trace w @ failed_round cfg out (opens w)\<rparr>"
    from 1(2) have "f cfg out ?w1 = Some w'"
      by (simp add: ensureOpen_body_fails[OF False])
    from 1(1)[OF this] obtain i where "device out (Suc (opens w) + i) = OpenOk" by auto
    then have "device out (opens w + Suc i) = OpenOk" by simp
    then show ?thesis by blast
  qed
qed

lemma ensureOpen_forever:
  "\<forall>i. device out (opens w + i) \<noteq> OpenOk \<Longrightarrow> ensureOpen cfg out w = None"
  using ensureOpen_returns_after_open[of cfg out w] by (cases "ensureOpen cfg out w") auto


lemma ensureOpen_body_attempts:
  "\<exists>es. trace (case ensureOpen_body cfg out w of Inl x \<Rightarrow> x | Inr x \<Rightarrow> x) =
     trace w @ NewSerialPort (chosen_path cfg out (opens w)) (SERIAL_BAUD cfg) # es"
proof (cases "device out (opens w) = OpenOk")
  case True
  then show ?thesis by (simp add: ensureOpen_body_opens opening_round_def)
next
  case False
  then show ?thesis by (simp add: ensureOpen_body_fails failed_round_def)
qed

lemma failed_rounds_end:
  "0 < n \<Longrightarrow> last (tr @ concat (map (failed_round cfg out) [k..<k + n])) = Sleep (CONNECT_RETRY_MS cfg)"
proof (induction n)
  case 0
  then show ?case by simp
next
  case (Suc n)
  have "[k..<k + Suc n] = [k..<k + n] @ [k + n]" by simp
  then show ?case by (simp add: failed_round_def del: upt_Suc)
qed

text \<open>
  Claim C4. When the next \<open>N\<close> calls of \<^verbatim>\<open>openPort\<close> fail and the one after them succeeds,
  \<^verbatim>\<open>ensureOpen\<close> returns, after exactly \<open>N + 1\<close> calls and \<open>N\<close> sleeps of \<open>CONNECT_RETRY_MS\<close>.
  The states it enters are \<open>N\<close> times \<open>Connecting\<close>, \<open>Disconnected\<close> and the wait, then
  \<open>Connecting\<close> and \<open>Open\<close>, and \<open>Open\<close> is the state it ends in; the parser is only piped and its
  handlers only wired after that, and after the \<open>N\<close> failed rounds the port, the parser and the
  state are still what they were before (\<open>Disconnected\<close> at the start of the process).
\<close>

theorem reconnect_until_open:
  assumes fails: "\<forall>i<N. device out (opens w + i) \<noteq> OpenOk"
    and opens: "device out (opens w + N) = OpenOk"
  shows "\<exists>w'. ensureOpen cfg out w = Some w'
     \<and> opens w' = opens w + N + 1
     \<and> added w w' = concat (map (failed_round cfg out) [opens w..<opens w + N])
                       @ opening_round cfg out (opens w + N)
     \<and> length (filter is_NewSerialPort (added w w')) = N + 1
     \<and> waits (added w w') = replicate N (CONNECT_RETRY_MS cfg)
     \<and> observe (added w w') =
         concat (replicate N [State Connecting, State Disconnected, Wait (CONNECT_RETRY_MS cfg)])
         @ [State Connecting, State Open, StreamStarts]
     \<and> port w' = Some \<lparr>sp_path = chosen_path cfg out (opens w + N), isOpen = True\<rparr>
     \<and> connection_state w' = Open
     \<and> parser w' = Some (LINE_DELIMITER cfg)
     \<and> (\<exists>wN. ensureOpen_upto N cfg out w = Inl wN \<and> port wN = port w \<and> parser wN = parser w
           \<and> connection_state wN = connection_state w)"
proof -
  let ?failed = "concat (map (failed_round cfg out) [opens w..<opens w + N])"
  let ?wN = "w\<lparr>opens := opens w + N, trace := trace w @ ?failed\<rparr>"
  let ?w' = "?wN\<lparr>opens := Suc (opens ?wN),
               port := Some \<lparr>sp_path = chosen_path cfg out (opens ?wN), isOpen = True\<rparr>,
               parser := Some (LINE_DELIMITER cfg),
               trace := trace ?wN @ opening_round cfg out (opens ?wN)\<rparr>"
  have upto: "ensureOpen_upto N cfg out w = Inl ?wN"
    by (rule ensureOpen_upto_fails[OF fails])
  have "device out (opens ?wN) = OpenOk" using opens by simp
  then have last_round: "ensureOpen_body cfg out ?wN = Inr ?w'"
    by (rule ensureOpen_body_opens)
  have run: "ensureOpen cfg out w = Some ?w'"
    by (subst ensureOpen_unroll[of _ _ _ N], simp only: upto sum.case)
       (subst ensureOpen.simps, simp only: last_round sum.case)
  have new: "added w ?w' = ?failed @ opening_round cfg out (opens w + N)"
    by (simp add: added_def)
  note read = failed_rounds_read[OF fails, of cfg] opening_round_read[of cfg out "opens w + N"]
  show ?thesis
    apply (rule exI[of _ ?w'])
    apply (simp only: new run)
    using read upto apply (simp add: observe_append waits_append connection_state_def)
    done
qed


theorem reconnect_until_open_witness:
  "device (bench endpoint_down) (opens initial + 0) \<noteq> OpenOk
   \<and> device (bench endpoint_down) (opens initial + 1) \<noteq> OpenOk
   \<and> device (bench endpoint_down) (opens initial + 2) = OpenOk
   \<and> connection_state initial = Disconnected
   \<and> (\<exists>w'. ensureOpen (CONFIG no_env) (bench endpoint_down) initial = Some w'
        \<and> connection_state w' = Open
        \<and> opens w' = 3
        \<and> waits (added initial w') = [3000, 3000]
        \<and> observe (added initial w') =
            [State Connecting, State Disconnected, Wait 3000,
             State Connecting, State Disconnected, Wait 3000,
             State Connecting, State Open, StreamStarts]
        \<and> port w' = Some \<lparr>sp_path = ''COM7'', isOpen = True\<rparr>)"
proof -
  have f: "\<forall>i<2. device (bench endpoint_down) (opens initial + i) \<noteq> OpenOk"
    by (simp add: bench_def initial_def)
  have f0: "device (bench endpoint_down) (opens initial + 0) \<noteq> OpenOk"
    and f1: "device (bench endpoint_down) (opens initial + 1) \<noteq> OpenOk"
    by (simp_all add: bench_def initial_def)
  have s: "device (bench endpoint_down) (opens initial + 2) = OpenOk"
    by (simp add: bench_def initial_def)
  have d: "CONNECT_RETRY_MS (CONFIG no_env) = 3000" by (simp add: CONFIG_def)
  have r: "replicate 2 x = [x, x]" for x :: 'a by (simp add: numeral_2_eq_2)
  have "looks_like_arduino (describe wch_port)" "\<not> looks_like_arduino (describe com1_port)"
    by code_simp+
  then have "autoDetectPort (Inr sample_ports) = ''COM7''"
    by (simp add: autoDetectPort_def sample_ports_def wch_port_def)
  then have p: "chosen_path (CONFIG no_env) (bench endpoint_down) n = ''COM7''" for n
    by (simp add: chosen_path_def CONFIG_def no_env_def env_or_def bench_def)
  from reconnect_until_open[OF f s, of "CONFIG no_env"]
  obtain w' where "ensureOpen (CONFIG no_env) (bench endpoint_down) initial = Some w'"
    "connection_state w' = Open"
    "opens w' = opens initial + 2 + 1"
    "waits (added initial w') = replicate 2 (CONNECT_RETRY_MS (CONFIG no_env))"
    "observe (added initial w') =
         concat (replicate 2 [State Connecting, State Disconnected,
               Wait (CONNECT_RETRY_MS (CONFIG no_env))])
         @ [State Connecting, State Open, StreamStarts]"
    "port w' = Some \<lparr>sp_path = chosen_path (CONFIG no_env) (bench endpoint_down) (opens initial + 2),
         isOpen = True\<rparr>"
    by blast
  then have "\<exists>w'. ensureOpen (CONFIG no_env) (bench endpoint_down) initial = Some w'
        \<and> connection_state w' = Open
        \<and> opens w' = 3
        \<and> waits (added initial w') = [3000, 3000]
        \<and> observe (added initial w') =
            [State Connecting, State Disconnected, Wait 3000,
             State Connecting, State Disconnected, Wait 3000,
             State Connecting, State Open, StreamStarts]
        \<and> port w' = Some \<lparr>sp_path = ''COM7'', isOpen = True\<rparr>"
    by (intro exI[of _ w']) (simp add: d r p, simp add: initial_def)
  moreover have "connection_state initial = Disconnected"
    by (simp add: connection_state_def initial_def)
  ultimately show ?thesis using f0 f1 s by blast
qed


text \<open>
  Claim C8. There is no bound on the rounds of \<^verbatim>\<open>ensureOpen\<close>. For every \<open>n\<close>, when the next
  \<open>n\<close> calls of \<^verbatim>\<open>openPort\<close> fail, the loop is still running after \<open>n\<close> rounds: it has slept
  \<open>n\<close> times, each time for \<open>CONNECT_RETRY_MS\<close> and last of all, it has set no exit code, and its
  next round begins with call number \<open>n + 1\<close>. When every call fails the loop never ends: it
  neither returns nor throws.
\<close>

theorem reconnect_unbounded:
  "((\<forall>i<n. device out (opens w + i) \<noteq> OpenOk) \<longrightarrow>
      (\<exists>wn. ensureOpen_upto n cfg out w = Inl wn
         \<and> ensureOpen cfg out w = ensureOpen cfg out wn
         \<and> opens wn = opens w + n
         \<and> length (filter is_NewSerialPort (added w wn)) = n
         \<and> waits (added w wn) = replicate n (CONNECT_RETRY_MS cfg)
         \<and> (0 < n \<longrightarrow> last (trace wn) = Sleep (CONNECT_RETRY_MS cfg))
         \<and> exit_code wn = exit_code w
         \<and> (\<exists>es. trace (case ensureOpen_body cfg out wn of Inl x \<Rightarrow> x | Inr x \<Rightarrow> x) =
                trace wn @ NewSerialPort (chosen_path cfg out (opens w + n)) (SERIAL_BAUD cfg) # es)))
   \<and> ((\<forall>i. device out (opens w + i) \<noteq> OpenOk) \<longrightarrow> ensureOpen cfg out w = None)"
proof (intro conjI impI)
  assume fails: "\<forall>i<n. device out (opens w + i) \<noteq> OpenOk"
  let ?failed = "concat (map (failed_round cfg out) [opens w..<opens w + n])"
  let ?wn = "w\<lparr>opens := opens w + n, trace := trace w @ ?failed\<rparr>"
  have upto: "ensureOpen_upto n cfg out w = Inl ?wn"
    by (rule ensureOpen_upto_fails[OF fails])
  have same: "ensureOpen cfg out w = ensureOpen cfg out ?wn"
    by (subst ensureOpen_unroll[of _ _ _ n]) (simp only: upto sum.case)
  have new: "added w ?wn = ?failed" by (simp add: added_def)
  have next_round: "\<exists>es. trace (case ensureOpen_body cfg out ?wn of Inl x \<Rightarrow> x | Inr x \<Rightarrow> x) =
                trace ?wn @ NewSerialPort (chosen_path cfg out (opens w + n)) (SERIAL_BAUD cfg) # es"
    using ensureOpen_body_attempts[of cfg out ?wn] by simp
  have slept: "0 < n \<longrightarrow> last (trace ?wn) = Sleep (CONNECT_RETRY_MS cfg)"
    by (simp add: failed_rounds_end)
  show "\<exists>wn. ensureOpen_upto n cfg out w = Inl wn
         \<and> ensureOpen cfg out w = ensureOpen cfg out wn
         \<and> opens wn = opens w + n
         \<and> length (filter is_NewSerialPort (added w wn)) = n
         \<and> waits (added w wn) = replicate n (CONNECT_RETRY_MS cfg)
         \<and> (0 < n \<longrightarrow> last (trace wn) = Sleep (CONNECT_RETRY_MS cfg))
         \<and> exit_code wn = exit_code w
         \<and> (\<exists>es. trace (case ensureOpen_body cfg out wn of Inl x \<Rightarrow> x | Inr x \<Rightarrow> x) =
                trace wn @ NewSerialPort (chosen_path cfg out (opens w + n)) (SERIAL_BAUD cfg) # es)"
    apply (rule exI[of _ ?wn])
    apply (simp only: new)
    using upto same[symmetric] next_round slept failed_rounds_read[OF fails, of cfg] apply simp
    done
next
  assume "\<forall>i. device out (opens w + i) \<noteq> OpenOk"
  then show "ensureOpen cfg out w = None" by (rule ensureOpen_forever)
qed


theorem reconnect_unbounded_witness:
  "(\<exists>w5. ensureOpen_upto 5 (CONFIG no_env) unplugged initial = Inl w5
         \<and> opens w5 = 5
         \<and> waits (added initial w5) = [3000, 3000, 3000, 3000, 3000]
         \<and> last (trace w5) = Sleep 3000
         \<and> exit_code w5 = None
         \<and> (\<exists>es. trace (case ensureOpen_body (CONFIG no_env) unplugged w5 of Inl x \<Rightarrow> x | Inr x \<Rightarrow> x) =
                trace w5 @ NewSerialPort ''COM3'' (Some 115200) # es))
   \<and> (\<forall>i. device unplugged (opens initial + i) \<noteq> OpenOk)
   \<and> ensureOpen (CONFIG no_env) unplugged initial = None"
proof -
  have f: "\<forall>i. device unplugged (opens initial + i) \<noteq> OpenOk"
    by (simp add: unplugged_def)
  then have f5: "\<forall>i<5. device unplugged (opens initial + i) \<noteq> OpenOk" by simp
  have d: "CONNECT_RETRY_MS (CONFIG no_env) = 3000" by (simp add: CONFIG_def)
  have b: "SERIAL_BAUD (CONFIG no_env) = Some 115200"
    by (simp add: CONFIG_def no_env_def env_or_def parseInt10_def is_ws_def is_digit_def
          digit_value_def)
  have p: "chosen_path (CONFIG no_env) unplugged n = ''COM3''" for n
    by (simp add: chosen_path_def CONFIG_def no_env_def env_or_def unplugged_def autoDetectPort_def)
  have r: "replicate 5 x = [x, x, x, x, x]" for x :: 'a by (simp add: eval_nat_numeral)
  note inst = reconnect_unbounded[of 5 unplugged initial "CONFIG no_env"]
  from mp[OF inst[THEN conjunct1] f5]
  have a: "\<exists>w5. ensureOpen_upto 5 (CONFIG no_env) unplugged initial = Inl w5
         \<and> opens w5 = 5
         \<and> waits (added initial w5) = [3000, 3000, 3000, 3000, 3000]
         \<and> last (trace w5) = Sleep 3000
         \<and> exit_code w5 = None
         \<and> (\<exists>es. trace (case ensureOpen_body (CONFIG no_env) unplugged w5 of Inl x \<Rightarrow> x | Inr x \<Rightarrow> x) =
                trace w5 @ NewSerialPort ''COM3'' (Some 115200) # es)"
    apply (elim exE conjE)
    subgoal for wn es
      apply (rule exI[of _ wn])
      apply (simp add: d r p b)
      apply (simp add: initial_def)
      done
    done
  have n: "ensureOpen (CONFIG no_env) unplugged initial = None"
    by (rule mp[OF inst[THEN conjunct2] f])
  from f a n show ?thesis by blast
qed

subsection \<open>Start and shutdown\<close>

lemma ensureOpen_body_keeps_exit_code:
  "exit_code (reached (ensureOpen_body cfg out w)) = exit_code w"
  by (cases "device out (opens w) = OpenOk")
     (simp_all add: ensureOpen_body_opens ensureOpen_body_fails reached_def)

lemma ensureOpen_body_first_event:
  "\<exists>es. trace (reached (ensureOpen_body cfg out w)) =
     trace w @ NewSerialPort (chosen_path cfg out (opens w)) (SERIAL_BAUD cfg) # es"
  using ensureOpen_body_attempts[of cfg out w] by (simp add: reached_def)

lemma ensureOpen_upto_keeps_exit_code:
  "exit_code (reached (ensureOpen_upto n cfg out w)) = exit_code w"
proof (induction n arbitrary: w)
  case 0
  show ?case by (simp add: reached_def)
next
  case (Suc n)
  show ?case
  proof (cases "ensureOpen_body cfg out w")
    case (Inl w1)
    with ensureOpen_body_keeps_exit_code[of cfg out w] Suc[of w1] show ?thesis
      by (simp add: reached_def)
  next
    case (Inr w1)
    with ensureOpen_body_keeps_exit_code[of cfg out w] show ?thesis
      by (simp add: reached_def)
  qed
qed

lemma ensureOpen_upto_extends:
  "\<exists>es. trace (reached (ensureOpen_upto n cfg out w)) = trace w @ es"
proof (induction n arbitrary: w)
  case 0
  show ?case by (simp add: reached_def)
next
  case (Suc n)
  from ensureOpen_body_first_event[of cfg out w]
  obtain es where es: "trace (reached (ensureOpen_body cfg out w)) =
     trace w @ NewSerialPort (chosen_path cfg out (opens w)) (SERIAL_BAUD cfg) # es"
    by blast
  show ?case
  proof (cases "ensureOpen_body cfg out w")
    case (Inl w1)
    from Suc[of w1] obtain es' where "trace (reached (ensureOpen_upto n cfg out w1)) = trace w1 @ es'"
      by blast
    with es Inl show ?thesis by (simp add: reached_def)
  next
    case (Inr w1)
    with es show ?thesis by (simp add: reached_def)
  qed
qed

lemma ensureOpen_upto_first_event:
  "\<exists>es. trace (reached (ensureOpen_upto (Suc n) cfg out w)) =
     trace w @ NewSerialPort (chosen_path cfg out (opens w)) (SERIAL_BAUD cfg) # es"
proof -
  from ensureOpen_body_first_event[of cfg out w]
  obtain es where es: "trace (reached (ensureOpen_body cfg out w)) =
     trace w @ NewSerialPort (chosen_path cfg out (opens w)) (SERIAL_BAUD cfg) # es"
    by blast
  show ?thesis
  proof (cases "ensureOpen_body cfg out w")
    case (Inl w1)
    from ensureOpen_upto_extends[of n cfg out w1]
    obtain es' where "trace (reached (ensureOpen_upto n cfg out w1)) = trace w1 @ es'"
      by blast
    with es Inl show ?thesis by (simp add: reached_def)
  next
    case (Inr w1)
    with es show ?thesis by (simp add: reached_def)
  qed
qed

lemma ensureOpen_result:
  assumes "ensureOpen cfg out w = Some w'"
  shows "\<exists>n. ensureOpen_upto (Suc n) cfg out w = Inr w'"
proof (rule ensureOpen.raw_induct[where P = "\<lambda>cfg out w w'. \<exists>n. ensureOpen_upto (Suc n) cfg out w = Inr w'",
      OF _ assms], goal_cases)
  case (1 f cfg out w w')
  show ?case
  proof (cases "ensureOpen_body cfg out w")
    case (Inr w1)
    with 1(2) have "ensureOpen_upto (Suc 0) cfg out w = Inr w'" by simp
    then show ?thesis by blast
  next
    case (Inl w1)
    with 1(2) have "f cfg out w1 = Some w'" by simp
    from 1(1)[OF this] obtain n where "ensureOpen_upto (Suc n) cfg out w1 = Inr w'" by blast
    with Inl have "ensureOpen_upto (Suc (Suc n)) cfg out w = Inr w'" by simp
    then show ?thesis by blast
  qed
qed

lemma ensureOpen_run:
  assumes fails: "\<forall>i<N. device out (opens w + i) \<noteq> OpenOk"
    and opens: "device out (opens w + N) = OpenOk"
  shows "\<exists>w'. ensureOpen cfg out w = Some w'"
proof -
  let ?wN = "w\<lparr>opens := opens w + N,
               trace := trace w @ concat (map (failed_round cfg out) [opens w..<opens w + N])\<rparr>"
  have upto: "ensureOpen_upto N cfg out w = Inl ?wN"
    by (rule ensureOpen_upto_fails[OF fails])
  have "device out (opens ?wN) = OpenOk" using opens by simp
  from ensureOpen_body_opens[OF this, of cfg]
  obtain w' where last_round: "ensureOpen_body cfg out ?wN = Inr w'" by blast
  have "ensureOpen cfg out w = Some w'"
    by (subst ensureOpen_unroll[of _ _ _ N], simp only: upto sum.case)
       (subst ensureOpen.simps, simp only: last_round sum.case)
  then show ?thesis by blast
qed

lemma parseInt10_no_digits:
  "s \<noteq> [] \<Longrightarrow> \<not> is_ws (hd s) \<Longrightarrow> \<not> is_digit (hd s) \<Longrightarrow> hd s \<noteq> CHR ''-'' \<Longrightarrow> hd s \<noteq> CHR ''+''
   \<Longrightarrow> parseInt10 s = None"
  by (cases s) (simp_all add: parseInt10_def)

text \<open>
  Claim C9, as stated, fails: the script has no check of its settings and no exit other than
  the one of the \<^verbatim>\<open>SIGINT\<close> handler. With \<^verbatim>\<open>SERIAL_BAUD=fast\<close> the baud rate is \<^verbatim>\<open>NaN\<close>, and with a
  port that does not open \<^verbatim>\<open>main\<close> never ends: after three rounds it has called the constructor
  three times with that baud rate and has set no exit code.
\<close>

theorem no_settings_check_counterexample:
  "SERIAL_BAUD (CONFIG fast_env) = None
   \<and> main fast_env unplugged = None
   \<and> (\<exists>w. ensureOpen_upto 3 (CONFIG fast_env) unplugged (started fast_env) = Inl w
        \<and> exit_code w = None
        \<and> filter is_NewSerialPort (trace w) =
            [NewSerialPort ''COM4'' None, NewSerialPort ''COM4'' None, NewSerialPort ''COM4'' None])"
proof -
  have b: "SERIAL_BAUD (CONFIG fast_env) = None"
    by (simp add: CONFIG_def fast_env_def env_or_def parseInt10_def is_ws_def is_digit_def)
  have f: "\<forall>i. device unplugged (opens (started fast_env) + i) \<noteq> OpenOk"
    by (simp add: unplugged_def)
  have m: "main fast_env unplugged = None"
    unfolding main_def by (rule ensureOpen_forever[OF f])
  from f have f3: "\<forall>i<3. device unplugged (opens (started fast_env) + i) \<noteq> OpenOk" by simp
  have d: "CONNECT_RETRY_MS (CONFIG fast_env) = 3000" by (simp add: CONFIG_def)
  have dev: "device unplugged n = OpenFails ''File not found''" for n
    by (simp add: unplugged_def)
  have p: "chosen_path (CONFIG fast_env) unplugged n = ''COM4''" for n
    by (simp add: chosen_path_def CONFIG_def fast_env_def env_or_def)
  have r: "failed_round (CONFIG fast_env) unplugged n =
      [NewSerialPort ''COM4'' None, LogOpenFailed ''COM4'' ''File not found'',
       LogRetryOpening 3000, Sleep 3000]" for n
    by (simp add: failed_round_def p b d dev)
  have three: "[0..<3] = [0, 1, 2]" by (simp add: upt_rec)
  show ?thesis
    using b m ensureOpen_upto_fails[OF f3, of "CONFIG fast_env"]
    by (simp add: r started_def initial_def three)
qed

text \<open>
  Claim C9, amended. The settings are not checked: the baud rate is whatever \<^verbatim>\<open>parseInt\<close>
  makes of the text, \<^verbatim>\<open>NaN\<close> for a text that begins with a character other than white space,
  a sign or a digit; after its three lines of log \<^verbatim>\<open>main\<close> goes straight to a connection
  attempt with that baud rate; no number of rounds of the connection loop sets an exit code,
  nor does the loop when it returns. The \<^verbatim>\<open>SIGINT\<close> handler exits with code 0, from any state.
\<close>

theorem no_settings_check:
  "SERIAL_BAUD (CONFIG env) = parseInt10 (env_or (env_SERIAL_BAUD env) ''115200'')
   \<and> (s \<noteq> [] \<and> \<not> is_ws (hd s) \<and> \<not> is_digit (hd s) \<and> hd s \<noteq> CHR ''-'' \<and> hd s \<noteq> CHR ''+''
        \<longrightarrow> parseInt10 s = None)
   \<and> exit_code (started env) = None
   \<and> exit_code (reached (ensureOpen_upto n (CONFIG env) out (started env))) = None
   \<and> (\<exists>es. trace (reached (ensureOpen_upto (Suc n) (CONFIG env) out (started env))) =
        trace (started env)
        @ NewSerialPort (chosen_path (CONFIG env) out 0) (SERIAL_BAUD (CONFIG env)) # es)
   \<and> (main env out = Some w \<longrightarrow>
        exit_code w = None
        \<and> (\<exists>es. trace w = trace (started env)
               @ NewSerialPort (chosen_path (CONFIG env) out 0) (SERIAL_BAUD (CONFIG env)) # es))
   \<and> exit_code (on_SIGINT w') = Some 0"
proof -
  have start: "exit_code (started env) = None" "opens (started env) = 0"
    by (simp_all add: started_def initial_def)
  have rounds: "exit_code (reached (ensureOpen_upto n (CONFIG env) out (started env))) = None" for n
    by (simp add: ensureOpen_upto_keeps_exit_code start)
  have first: "\<exists>es. trace (reached (ensureOpen_upto (Suc n) (CONFIG env) out (started env))) =
        trace (started env)
        @ NewSerialPort (chosen_path (CONFIG env) out 0) (SERIAL_BAUD (CONFIG env)) # es" for n
    using ensureOpen_upto_first_event[of n "CONFIG env" out "started env"] by (simp add: start)
  have returned: "exit_code w = None
        \<and> (\<exists>es. trace w = trace (started env)
               @ NewSerialPort (chosen_path (CONFIG env) out 0) (SERIAL_BAUD (CONFIG env)) # es)"
    if "main env out = Some w"
  proof -
    from that obtain k where k: "ensureOpen_upto (Suc k) (CONFIG env) out (started env) = Inr w"
      unfolding main_def by (blast dest: ensureOpen_result)
    from rounds[of "Suc k"] first[of k] show ?thesis
      unfolding k by (simp add: reached_def)
  qed
  have sigint: "exit_code (on_SIGINT w') = Some 0"
    by (simp add: on_SIGINT_def Let_def)
  show ?thesis
    using start(1) rounds first returned sigint parseInt10_no_digits[of s]
    by (simp add: CONFIG_def)
qed


theorem no_settings_check_witness:
  "''fast'' \<noteq> [] \<and> \<not> is_ws (hd ''fast'') \<and> \<not> is_digit (hd ''fast'')
   \<and> hd ''fast'' \<noteq> CHR ''-'' \<and> hd ''fast'' \<noteq> CHR ''+''
   \<and> parseInt10 ''fast'' = None
   \<and> SERIAL_BAUD (CONFIG fast_env) = None
   \<and> (\<exists>w. main fast_env (bench endpoint_down) = Some w
        \<and> exit_code w = None
        \<and> (\<exists>es. trace w = trace (started fast_env) @ NewSerialPort ''COM4'' None # es))
   \<and> exit_code (on_SIGINT initial) = Some 0"
proof -
  have chars: "''fast'' \<noteq> [] \<and> \<not> is_ws (hd ''fast'') \<and> \<not> is_digit (hd ''fast'')
      \<and> hd ''fast'' \<noteq> CHR ''-'' \<and> hd ''fast'' \<noteq> CHR ''+''"
    by (simp add: is_ws_def is_digit_def)
  have f: "\<forall>i<2. device (bench endpoint_down) (opens (started fast_env) + i) \<noteq> OpenOk"
    by (simp add: bench_def started_def initial_def)
  have s: "device (bench endpoint_down) (opens (started fast_env) + 2) = OpenOk"
    by (simp add: bench_def started_def initial_def)
  from ensureOpen_run[OF f s, of "CONFIG fast_env"]
  obtain w where w: "main fast_env (bench endpoint_down) = Some w"
    unfolding main_def by blast
  have p: "chosen_path (CONFIG fast_env) (bench endpoint_down) 0 = ''COM4''"
    by (simp add: chosen_path_def CONFIG_def fast_env_def env_or_def)
  have e: "env_or (env_SERIAL_BAUD fast_env) ''115200'' = ''fast''"
    by (simp add: fast_env_def env_or_def)
  note inst = no_settings_check[of fast_env "''fast''" 0 "bench endpoint_down" w initial]
  from inst chars have none: "parseInt10 ''fast'' = None" by blast
  from inst have "SERIAL_BAUD (CONFIG fast_env) = parseInt10 (env_or (env_SERIAL_BAUD fast_env) ''115200'')"
    by blast
  then have b: "SERIAL_BAUD (CONFIG fast_env) = None"
    by (simp only: e none)
  from inst w have "exit_code w = None
        \<and> (\<exists>es. trace w = trace (started fast_env)
               @ NewSerialPort (chosen_path (CONFIG fast_env) (bench endpoint_down) 0)
                   (SERIAL_BAUD (CONFIG fast_env)) # es)"
    by blast
  then have r: "\<exists>w. main fast_env (bench endpoint_down) = Some w
        \<and> exit_code w = None
        \<and> (\<exists>es. trace w = trace (started fast_env) @ NewSerialPort ''COM4'' None # es)"
    using w by (simp only: p b) blast
  from inst have x: "exit_code (on_SIGINT initial) = Some 0" by blast
  from chars none b r x show ?thesis by blast
qed


end
